theory Spec2Isabelle
  imports Main "HOL-Library.Word" "HOL-Library.Signed_Division"
begin

unbundle bit_operations_syntax

section \<open>The in-memory session store of package ram\<close>

text \<open>
  The development follows \<^verbatim>\<open>ram/ram.go\<close>. The session server is the only goroutine
  that reads commands, so the model runs the commands one after the other. What the
  server takes from its environment is made a parameter: the readings of the clock and
  the order in which \<^verbatim>\<open>range\<close> yields the keys of a Go map.
\<close>

subsection \<open>Data\<close>

text \<open>\<^verbatim>\<open>uuid.UUID\<close> is \<^verbatim>\<open>[16]byte\<close>; \<^verbatim>\<open>time.Duration\<close> is a signed 64-bit count of
  nanoseconds. A \<^verbatim>\<open>time.Time\<close> is taken as an instant on the integer line, in
  nanoseconds. A Go map is a reference: \<^verbatim>\<open>addr\<close> is the address of a value store.\<close>

type_synonym uuid = "128 word"
type_synonym Duration = "64 word"
type_synonym time = int
type_synonym addr = nat

text \<open>The variants of package uuid, \<^verbatim>\<open>Invalid\<close> first. The function \<^verbatim>\<open>Variant()\<close>
  belongs to that package (github.com/google/uuid), not to this repository: the
  operations that call it take it as the parameter \<open>vr\<close>, and what they do is proved for
  every \<open>vr\<close>.\<close>

datatype Variant = Invalid | RFC4122 | Reserved | Microsoft | Future

text \<open>\<^verbatim>\<open>uuid[8]\<close>: the sixteen bytes of an id are read from the most significant end of
  the word, so byte 8 is made of bits 56 to 63.\<close>

definition byte8 :: "uuid \<Rightarrow> 8 word" where
  "byte8 u = ucast (drop_bit 56 u)"

text \<open>\<^verbatim>\<open>UUID.Variant()\<close> as package uuid has it, a switch on byte 8 with four cases:
  \<^verbatim>\<open>(uuid[8] & 0xc0) == 0x80\<close> gives \<^verbatim>\<open>RFC4122\<close>, \<^verbatim>\<open>(uuid[8] & 0xe0) == 0xc0\<close> gives
  \<^verbatim>\<open>Microsoft\<close>, \<^verbatim>\<open>(uuid[8] & 0xe0) == 0xe0\<close> gives \<^verbatim>\<open>Future\<close>, and the default is
  \<^verbatim>\<open>Reserved\<close>. It is the function that stands for \<open>vr\<close> when the operations run.\<close>

definition UUID_Variant :: "uuid \<Rightarrow> Variant" where
  "UUID_Variant u =
     (if byte8 u AND 0xc0 = 0x80 then RFC4122
      else if byte8 u AND 0xe0 = 0xc0 then Microsoft
      else if byte8 u AND 0xe0 = 0xe0 then Future
      else Reserved)"

text \<open>The four sentinel errors. \<^verbatim>\<open>fmt.Errorf("%s: %w", fname, err)\<close> wraps a sentinel
  with the name of the function: an error value is the pair of both.\<close>

datatype err = ErrNoSession | ErrPoorForm | ErrTimedOut | ErrNoData

type_synonym error = "string \<times> err"

text \<open>What stops the process: a slice expression out of range, a write to a nil map,
  \<^verbatim>\<open>log.Fatal\<close>.\<close>

datatype panic = SliceOutOfRange | NilMapWrite | Fatal

text \<open>\<^verbatim>\<open>valueStore\<close>; \<^verbatim>\<open>Set\<close>, \<^verbatim>\<open>Get\<close> and \<^verbatim>\<open>Del\<close> use string keys only. The values
  are of any type \<open>'v\<close>.\<close>

type_synonym 'v valueStore = "string \<rightharpoonup> 'v"

text \<open>\<^verbatim>\<open>Session\<close>. Field \<open>data\<close> is the address of the map, \<open>None\<close> for the nil map.
  Field \<open>sto\<close> is \<open>None\<close> for the nil pointer and \<open>Some ()\<close> for the pointer to the
  one store that is modelled.\<close>

record Session =
  id_s :: uuid
  data :: "addr option"
  created :: time
  modified :: time
  index_s :: int
  sto :: "unit option"
  maxage_s :: Duration
  active :: bool

text \<open>\<^verbatim>\<open>Session{}\<close>, the zero value.\<close>

definition Session0 :: Session where
  "Session0 = \<lparr>id_s = 0, data = None, created = 0, modified = 0, index_s = 0,
               sto = None, maxage_s = 0, active = False\<rparr>"

text \<open>\<^verbatim>\<open>Store\<close>, without its channel. The counter \<open>index\<close> is a Go \<^verbatim>\<open>int\<close>; it moves by
  one with the length of \<open>array\<close>, which stays far from \<open>2^63\<close>, so it is an \<open>int\<close>.\<close>

record Store =
  sessions :: "uuid \<rightharpoonup> Session"
  array :: "uuid list"
  index :: int
  period :: Duration

text \<open>The store together with the memory that holds the value stores: \<open>cells\<close> gives
  the contents at each address and \<open>nxt\<close> is the next address that \<^verbatim>\<open>make\<close> hands
  out.\<close>

record 'v world =
  store :: Store
  cells :: "addr \<Rightarrow> 'v valueStore"
  nxt :: addr

text \<open>The command tokens and the command. The server has a case for each of the first
  five tokens; \<^verbatim>\<open>exit\<close>, like every other value of the type, falls to the default
  case. Field \<open>result\<close> is the reply channel: the reply is the value that \<open>serve\<close>
  returns. Field \<open>seStore\<close> is the store of the world.\<close>

datatype cmd = create | activate | deactivate | touch | timecheck | exit

record command =
  cmd :: cmd
  key :: uuid
  maxage :: Duration

text \<open>What one command reads from its environment: \<open>now1\<close> and \<open>now2\<close> are the first
  and the second reading of \<^verbatim>\<open>time.Now()\<close>; \<open>iter\<close> lists the keys in the order in which
  \<^verbatim>\<open>range\<close> comes to them, each with the reading of the clock that \<^verbatim>\<open>time.Since\<close>
  takes in that iteration.\<close>

record env =
  now1 :: time
  now2 :: time
  iter :: "(uuid \<times> time) list"

subsection \<open>Constants and time\<close>

definition divisor :: Duration where
  "divisor = 2"

definition Second :: Duration where
  "Second = 1000000000"

definition Minute :: Duration where
  "Minute = 60 * Second"

definition defaultPeriod :: Duration where
  "defaultPeriod = 20"

text \<open>The quotient of two \<^verbatim>\<open>int64\<close> in Go: it truncates towards zero. The only
  divisor in the package is the variable \<^verbatim>\<open>divisor\<close>, which is 2 and is never
  assigned.\<close>

definition div64 :: "Duration \<Rightarrow> Duration \<Rightarrow> Duration" where
  "div64 a b = word_of_int (sint a sdiv sint b)"

text \<open>\<^verbatim>\<open>time.Since(t)\<close> is \<^verbatim>\<open>time.Now().Sub(t)\<close>: the difference, kept within the range
  of a \<^verbatim>\<open>Duration\<close> at both ends.\<close>

definition Since :: "time \<Rightarrow> time \<Rightarrow> Duration" where
  "Since now t =
     (if now - t > 2 ^ 63 - 1 then word_of_int (2 ^ 63 - 1)
      else if now - t < - (2 ^ 63) then word_of_int (- (2 ^ 63))
      else word_of_int (now - t))"

subsection \<open>The commands of the session server\<close>

text \<open>A read of a Go map gives the zero value for a key that is absent.\<close>

definition lookup :: "(uuid \<rightharpoonup> Session) \<Rightarrow> uuid \<Rightarrow> Session" where
  "lookup m k = (case m k of None \<Rightarrow> Session0 | Some s \<Rightarrow> s)"

text \<open>\<^verbatim>\<open>command.create\<close>.\<close>

definition command_create :: "command \<Rightarrow> env \<Rightarrow> 'v world \<Rightarrow> Session \<times> 'v world" where
  "command_create c e w =
     (let st = store w in
      if sessions st (key c) \<noteq> None then (Session0, w)
      else
        let s = \<lparr>id_s = key c, data = Some (nxt w), created = now1 e, modified = now2 e,
                 index_s = index st, sto = Some (), maxage_s = maxage c, active = True\<rparr>;
            s = (if maxage c \<le>s 0 then s\<lparr>maxage_s := div64 (period st) divisor\<rparr> else s)
        in (s, w\<lparr>store := st\<lparr>sessions := (sessions st)(key c \<mapsto> s),
                              array := array st @ [key c],
                              index := index st + 1\<rparr>,
                  cells := (cells w)(nxt w := Map.empty),
                  nxt := Suc (nxt w)\<rparr>))"

text \<open>\<^verbatim>\<open>command.retrieve\<close>.\<close>

definition command_retrieve :: "command \<Rightarrow> Store \<Rightarrow> Session" where
  "command_retrieve c st =
     (case sessions st (key c) of
        Some s \<Rightarrow> s\<lparr>maxage_s := maxage c\<rparr>
      | None \<Rightarrow> Session0)"

text \<open>The loop of \<^verbatim>\<open>Store.destroy\<close> that corrects the index of the moved ids.\<close>

fun reindex :: "uuid list \<Rightarrow> (uuid \<rightharpoonup> Session) \<Rightarrow> (uuid \<rightharpoonup> Session)" where
  "reindex [] m = m"
| "reindex (u # us) m =
     reindex us (m(u \<mapsto> (lookup m u)\<lparr>index_s := index_s (lookup m u) - 1\<rparr>))"

text \<open>\<^verbatim>\<open>Store.destroy\<close>. The two slice expressions \<^verbatim>\<open>s.array[:se.index]\<close> and
  \<^verbatim>\<open>s.array[se.index+1:]\<close> panic unless \<open>0 \<le> index\<close> and \<open>index + 1 \<le> len\<close>.\<close>

definition Store_destroy :: "Store \<Rightarrow> uuid \<Rightarrow> panic + Store" where
  "Store_destroy s k =
     (case sessions s k of
        None \<Rightarrow> Inr s
      | Some se \<Rightarrow>
          if index_s se < 0 \<or> int (length (array s)) < index_s se + 1
          then Inl SliceOutOfRange
          else
            let i = nat (index_s se);
                arr = take i (array s) @ drop (i + 1) (array s);
                m = reindex (drop i arr) (sessions s)
            in Inr (s\<lparr>array := arr, index := index s - 1, sessions := m(k := None)\<rparr>))"

text \<open>\<^verbatim>\<open>command.destroy\<close>.\<close>

definition command_destroy :: "command \<Rightarrow> Store \<Rightarrow> panic + Store" where
  "command_destroy c st =
     (if sessions st (key c) \<noteq> None then Store_destroy st (key c) else Inr st)"

text \<open>\<^verbatim>\<open>command.touch\<close>.\<close>

definition command_touch :: "command \<Rightarrow> env \<Rightarrow> Store \<Rightarrow> Session \<times> Store" where
  "command_touch c e st =
     (case sessions st (key c) of
        Some s \<Rightarrow>
          (s\<lparr>modified := now1 e\<rparr>,
           st\<lparr>sessions := (sessions st)(key c \<mapsto> s\<lparr>modified := now1 e\<rparr>)\<rparr>)
      | None \<Rightarrow> (Session0, st))"

text \<open>\<^verbatim>\<open>command.timeout\<close>. The loop runs over the keys as \<^verbatim>\<open>range\<close> yields them; an
  entry that was deleted before the loop came to it is not yielded.\<close>

fun timeout_loop :: "(uuid \<times> time) list \<Rightarrow> Store \<Rightarrow> panic + Store" where
  "timeout_loop [] st = Inr st"
| "timeout_loop ((k, t) # ks) st =
     (case sessions st k of
        None \<Rightarrow> timeout_loop ks st
      | Some s \<Rightarrow>
          if maxage_s s <s Since t (modified s)
          then (case Store_destroy st k of
                  Inl p \<Rightarrow> Inl p
                | Inr st' \<Rightarrow> timeout_loop ks st')
          else timeout_loop ks st)"

definition command_timeout :: "env \<Rightarrow> Store \<Rightarrow> panic + Store" where
  "command_timeout e st = timeout_loop (iter e) st"

text \<open>One turn of the loop of \<^verbatim>\<open>sessionServer\<close>: the reply and the new world. The
  default case calls \<^verbatim>\<open>log.Fatal\<close>, which ends the process.\<close>

definition serve :: "command \<Rightarrow> env \<Rightarrow> 'v world \<Rightarrow> panic + (Session \<times> 'v world)" where
  "serve c e w =
     (case cmd c of
        create \<Rightarrow> Inr (command_create c e w)
      | activate \<Rightarrow> Inr (command_retrieve c (store w), w)
      | deactivate \<Rightarrow>
          (case command_destroy c (store w) of
             Inl p \<Rightarrow> Inl p
           | Inr st \<Rightarrow> Inr (Session0, w\<lparr>store := st\<rparr>))
      | touch \<Rightarrow>
          (case command_touch c e (store w) of
             (s, st) \<Rightarrow> Inr (s, w\<lparr>store := st\<rparr>))
      | timecheck \<Rightarrow>
          (case command_timeout e (store w) of
             Inl p \<Rightarrow> Inl p
           | Inr st \<Rightarrow> Inr (Session0, w\<lparr>store := st\<rparr>))
      | exit \<Rightarrow> Inl Fatal)"

text \<open>\<^verbatim>\<open>sessionServer\<close> on a queue of commands: the world after the last one.\<close>

fun sessionServer :: "(command \<times> env) list \<Rightarrow> 'v world \<Rightarrow> panic + 'v world" where
  "sessionServer [] w = Inr w"
| "sessionServer ((c, e) # cs) w =
     (case serve c e w of
        Inl p \<Rightarrow> Inl p
      | Inr (r, w') \<Rightarrow> sessionServer cs w')"

text \<open>\<^verbatim>\<open>Init\<close>: the empty table, with the default period.\<close>

definition Init :: "'v world" where
  "Init = \<lparr>store = \<lparr>sessions = Map.empty, array = [], index = 0,
                    period = Minute * defaultPeriod\<rparr>,
           cells = (\<lambda>a. Map.empty), nxt = 0\<rparr>"

subsection \<open>The exported operations\<close>

text \<open>Each exported operation checks the id, sends one command to the server and waits
  for the reply. The result is the pair of what the operation returns and the world
  after it; \<open>vr\<close> is \<^verbatim>\<open>Variant()\<close> of package uuid.\<close>

text \<open>\<^verbatim>\<open>Store.Create\<close>. The argument \<open>mx\<close> is a Go \<^verbatim>\<open>int\<close> of 64 bits; the product with
  \<^verbatim>\<open>time.Second\<close> wraps around.\<close>

definition Store_Create ::
  "(uuid \<Rightarrow> Variant) \<Rightarrow> uuid \<Rightarrow> 64 word \<Rightarrow> env \<Rightarrow> 'v world
     \<Rightarrow> panic + ((Session \<times> error option) \<times> 'v world)" where
  "Store_Create vr sid mx e w =
     (if vr sid = Invalid then Inr ((Session0, Some (''Store.Create'', ErrPoorForm)), w)
      else
        case serve \<lparr>cmd = create, key = sid, maxage = mx * Second\<rparr> e w of
          Inl p \<Rightarrow> Inl p
        | Inr (sess, w') \<Rightarrow>
            if \<not> active sess
            then Inr ((Session0, Some (''Store.Create'', ErrNoSession)), w')
            else Inr ((sess, None), w'))"

text \<open>\<^verbatim>\<open>Store.Restore\<close>. The command it sends is \<^verbatim>\<open>touch\<close>.\<close>

definition Store_Restore ::
  "(uuid \<Rightarrow> Variant) \<Rightarrow> uuid \<Rightarrow> env \<Rightarrow> 'v world
     \<Rightarrow> panic + ((Session \<times> error option) \<times> 'v world)" where
  "Store_Restore vr sid e w =
     (if vr sid = Invalid then Inr ((Session0, Some (''Store.Restore'', ErrPoorForm)), w)
      else
        case serve \<lparr>cmd = touch, key = sid, maxage = 0\<rparr> e w of
          Inl p \<Rightarrow> Inl p
        | Inr (sess, w') \<Rightarrow>
            if \<not> active sess
            then Inr ((Session0, Some (''Store.Restore'', ErrNoSession)), w')
            else Inr ((sess, None), w'))"

text \<open>\<^verbatim>\<open>Store.Destroy\<close>.\<close>

definition Store_Destroy ::
  "(uuid \<Rightarrow> Variant) \<Rightarrow> uuid \<Rightarrow> env \<Rightarrow> 'v world \<Rightarrow> panic + (error option \<times> 'v world)" where
  "Store_Destroy vr sid e w =
     (if vr sid = Invalid then Inr (Some (''Store.Destroy'', ErrNoSession), w)
      else
        case serve \<lparr>cmd = deactivate, key = sid, maxage = 0\<rparr> e w of
          Inl p \<Rightarrow> Inl p
        | Inr (sess, w') \<Rightarrow> Inr (None, w'))"

text \<open>\<^verbatim>\<open>Store.Period\<close>: the previous period and the new world.\<close>

definition Period :: "Duration \<Rightarrow> 'v world \<Rightarrow> Duration \<times> 'v world" where
  "Period t w = (period (store w), w\<lparr>store := (store w)\<lparr>period := t\<rparr>\<rparr>)"

text \<open>\<^verbatim>\<open>Store.touch\<close>.\<close>

definition Store_touch :: "uuid \<Rightarrow> env \<Rightarrow> 'v world \<Rightarrow> panic + (Session \<times> 'v world)" where
  "Store_touch sid e w = serve \<lparr>cmd = touch, key = sid, maxage = 0\<rparr> e w"

subsection \<open>The operations of a session\<close>

text \<open>The three operations of Go on a map that is held by reference: the assignment
  \<^verbatim>\<open>m[k] = v\<close> panics on the nil map, \<^verbatim>\<open>delete(m, k)\<close> does nothing on it and the
  read \<^verbatim>\<open>v, ok := m[k]\<close> finds nothing in it.\<close>

definition map_assign :: "addr option \<Rightarrow> string \<Rightarrow> 'v \<Rightarrow> 'v world \<Rightarrow> panic + 'v world" where
  "map_assign m k v w =
     (case m of
        None \<Rightarrow> Inl NilMapWrite
      | Some a \<Rightarrow> Inr (w\<lparr>cells := (cells w)(a := (cells w a)(k \<mapsto> v))\<rparr>))"

definition map_delete :: "addr option \<Rightarrow> string \<Rightarrow> 'v world \<Rightarrow> 'v world" where
  "map_delete m k w =
     (case m of
        None \<Rightarrow> w
      | Some a \<Rightarrow> w\<lparr>cells := (cells w)(a := (cells w a)(k := None))\<rparr>)"

definition map_read :: "addr option \<Rightarrow> 'v world \<Rightarrow> 'v valueStore" where
  "map_read m w = (case m of None \<Rightarrow> Map.empty | Some a \<Rightarrow> cells w a)"

text \<open>\<^verbatim>\<open>Session.Set\<close>. The assignment \<^verbatim>\<open>s.data[key] = value\<close> is made by the caller, after
  the reply of the server, in the map that the session of the reply points to.\<close>

definition Session_Set ::
  "Session \<Rightarrow> string \<Rightarrow> 'v \<Rightarrow> env \<Rightarrow> 'v world \<Rightarrow> panic + (error option \<times> 'v world)" where
  "Session_Set s k v e w =
     (if sto s = None \<or> \<not> active s then Inr (Some (''Session.Set'', ErrTimedOut), w)
      else
        case Store_touch (id_s s) e w of
          Inl p \<Rightarrow> Inl p
        | Inr (s', w') \<Rightarrow>
            if \<not> active s' then Inr (Some (''Session.Set'', ErrTimedOut), w')
            else
              (case map_assign (data s') k v w' of
                 Inl p \<Rightarrow> Inl p
               | Inr w'' \<Rightarrow> Inr (None, w'')))"

text \<open>\<^verbatim>\<open>Session.Get\<close>.\<close>

definition Session_Get ::
  "Session \<Rightarrow> string \<Rightarrow> env \<Rightarrow> 'v world
     \<Rightarrow> panic + (('v option \<times> error option) \<times> 'v world)" where
  "Session_Get s k e w =
     (if sto s = None \<or> \<not> active s then Inr ((None, Some (''Session.Get'', ErrPoorForm)), w)
      else
        case Store_touch (id_s s) e w of
          Inl p \<Rightarrow> Inl p
        | Inr (s', w') \<Rightarrow>
            if \<not> active s' then Inr ((None, Some (''Session.Get'', ErrNoSession)), w')
            else
              (case map_read (data s') w' k of
                 None \<Rightarrow> Inr ((None, Some (''Session.Get'', ErrNoData)), w')
               | Some v \<Rightarrow> Inr ((Some v, None), w')))"

text \<open>\<^verbatim>\<open>Session.Del\<close>.\<close>

definition Session_Del ::
  "Session \<Rightarrow> string \<Rightarrow> env \<Rightarrow> 'v world \<Rightarrow> panic + (error option \<times> 'v world)" where
  "Session_Del s k e w =
     (if sto s = None \<or> \<not> active s then Inr (Some (''Session.Del'', ErrPoorForm), w)
      else
        case Store_touch (id_s s) e w of
          Inl p \<Rightarrow> Inl p
        | Inr (s', w') \<Rightarrow>
            if \<not> active s' then Inr (Some (''Session.Del'', ErrNoSession), w')
            else
              Inr (None, map_delete (data s') k w'))"

text \<open>\<^verbatim>\<open>Session.Valid\<close>.\<close>

definition Valid :: "Session \<Rightarrow> bool" where
  "Valid s = active s"

subsection \<open>The invariant of the table\<close>

text \<open>The invariant as the data model states it: every key of \<open>sessions\<close> stands
  exactly once in \<open>array\<close>, at the position that the session stores in its index
  field, and the length of \<open>array\<close>, the size of \<open>sessions\<close> and the counter \<open>index\<close>
  are equal.\<close>

definition table_invariant :: "Store \<Rightarrow> bool" where
  "table_invariant st \<longleftrightarrow>
     (\<forall>k s. sessions st k = Some s \<longrightarrow>
        count_list (array st) k = 1 \<and> 0 \<le> index_s s \<and>
        nat (index_s s) < length (array st) \<and> array st ! nat (index_s s) = k) \<and>
     length (array st) = card (dom (sessions st)) \<and>
     int (card (dom (sessions st))) = index st"

text \<open>The same invariant read along \<open>array\<close>: the form the proofs work with.\<close>

definition table_inv :: "Store \<Rightarrow> bool" where
  "table_inv st \<longleftrightarrow>
     distinct (array st) \<and> set (array st) = dom (sessions st) \<and>
     (\<forall>i<length (array st). index_s (lookup (sessions st) (array st ! i)) = int i) \<and>
     index st = int (length (array st))"

text \<open>What \<^verbatim>\<open>Store.destroy\<close> does to a session that stays, when the session removed
  stood at position \<open>i\<close>.\<close>

definition shift_above :: "int \<Rightarrow> Session \<Rightarrow> Session" where
  "shift_above i s = (if i < index_s s then s\<lparr>index_s := index_s s - 1\<rparr> else s)"

text \<open>The test of \<^verbatim>\<open>command.timeout\<close>: \<^verbatim>\<open>time.Since(s.modified) > s.maxage\<close>.\<close>

definition timed_out :: "time \<Rightarrow> Session \<Rightarrow> bool" where
  "timed_out now s \<longleftrightarrow> maxage_s s <s Since now (modified s)"

text \<open>A session without its index field.\<close>

definition no_index :: "Session \<Rightarrow> Session" where
  "no_index s = s\<lparr>index_s := 0\<rparr>"

subsection \<open>Concrete queues and tables\<close>

text \<open>A queue of six commands: three sessions are created, one is touched, one is
  destroyed, and a sweep six seconds later meets the other two.\<close>

definition ex_queue :: "(command \<times> env) list" where
  "ex_queue =
     [(\<lparr>cmd = create, key = 1, maxage = 0\<rparr>, \<lparr>now1 = 0, now2 = 0, iter = []\<rparr>),
      (\<lparr>cmd = create, key = 2, maxage = 5 * Second\<rparr>, \<lparr>now1 = 1, now2 = 1, iter = []\<rparr>),
      (\<lparr>cmd = create, key = 3, maxage = 50 * Second\<rparr>, \<lparr>now1 = 2, now2 = 2, iter = []\<rparr>),
      (\<lparr>cmd = touch, key = 3, maxage = 0\<rparr>, \<lparr>now1 = 3, now2 = 3, iter = []\<rparr>),
      (\<lparr>cmd = deactivate, key = 1, maxage = 0\<rparr>, \<lparr>now1 = 4, now2 = 4, iter = []\<rparr>),
      (\<lparr>cmd = timecheck, key = 0, maxage = 0\<rparr>,
       \<lparr>now1 = 0, now2 = 0, iter = [(3, 6000000000), (2, 6000000000)]\<rparr>)]"

text \<open>A table of two sessions, both last modified at instant 0: the first may idle
  for five seconds, the second for fifty.\<close>

definition ex_table :: Store where
  "ex_table =
     \<lparr>sessions =
        [1 \<mapsto> \<lparr>id_s = 1, data = Some 0, created = 0, modified = 0, index_s = 0,
                 sto = Some (), maxage_s = 5 * Second, active = True\<rparr>,
         2 \<mapsto> \<lparr>id_s = 2, data = Some 1, created = 0, modified = 0, index_s = 1,
                 sto = Some (), maxage_s = 50 * Second, active = True\<rparr>],
      array = [1, 2], index = 2, period = Minute * defaultPeriod\<rparr>"

text \<open>A sweep six seconds later that comes to both keys, and the table it leaves.\<close>

definition ex_sweep :: env where
  "ex_sweep = \<lparr>now1 = 0, now2 = 0, iter = [(1, 6000000000), (2, 6000000000)]\<rparr>"

definition ex_swept :: Store where
  "ex_swept =
     \<lparr>sessions =
        [2 \<mapsto> \<lparr>id_s = 2, data = Some 1, created = 0, modified = 0, index_s = 0,
                 sto = Some (), maxage_s = 50 * Second, active = True\<rparr>],
      array = [2], index = 1, period = Minute * defaultPeriod\<rparr>"

text \<open>The same table in a world, and an environment whose clock reads 5.\<close>

definition ex_world :: "nat world" where
  "ex_world = \<lparr>store = ex_table, cells = (\<lambda>a. Map.empty), nxt = 2\<rparr>"

definition ex_env :: env where
  "ex_env = \<lparr>now1 = 5, now2 = 5, iter = []\<rparr>"

text \<open>The first session of that table, and a session value for an id that the table
  does not hold.\<close>

definition ex_session1 :: Session where
  "ex_session1 = \<lparr>id_s = 1, data = Some 0, created = 0, modified = 0, index_s = 0,
                   sto = Some (), maxage_s = 5 * Second, active = True\<rparr>"

definition ex_session9 :: Session where
  "ex_session9 = \<lparr>id_s = 9, data = Some 7, created = 0, modified = 0, index_s = 0,
                   sto = Some (), maxage_s = 5 * Second, active = True\<rparr>"

text \<open>The session that \<^verbatim>\<open>Create\<close> returns for id 1 on the empty table, the world after
  that call, and the world after \<open>''x''\<close> was then set to 7 in the value store of the
  returned copy.\<close>

definition ex_created :: Session where
  "ex_created = \<lparr>id_s = 1, data = Some 0, created = 5, modified = 5, index_s = 0,
                  sto = Some (), maxage_s = 600000000000, active = True\<rparr>"

definition ex_world1 :: "nat world" where
  "ex_world1 =
     \<lparr>store = \<lparr>sessions = [1 \<mapsto> ex_created], array = [1], index = 1,
               period = Minute * defaultPeriod\<rparr>,
      cells = (\<lambda>a. Map.empty), nxt = 1\<rparr>"

definition ex_world2 :: "nat world" where
  "ex_world2 = ex_world1\<lparr>cells := (\<lambda>a. Map.empty)(0 := [''x'' \<mapsto> 7])\<rparr>"

section \<open>Properties\<close>

subsection \<open>The validity check\<close>

text \<open>No id has the variant \<^verbatim>\<open>Invalid\<close>.\<close>

lemma UUID_Variant_valid: "UUID_Variant u \<noteq> Invalid"
  by (simp add: UUID_Variant_def)

subsection \<open>Removal keeps the table dense\<close>

lemma lookup_Some [simp]: "m k = Some s \<Longrightarrow> lookup m k = s"
  by (simp add: lookup_def)

lemma lookup_upd [simp]: "lookup (m(k \<mapsto> s)) v = (if v = k then s else lookup m v)"
  by (simp add: lookup_def)

lemma reindex_distinct:
  "distinct us \<Longrightarrow>
   reindex us m v =
     (if v \<in> set us then Some ((lookup m v)\<lparr>index_s := index_s (lookup m v) - 1\<rparr>) else m v)"
  by (induction us arbitrary: m) auto

lemma destroy_split:
  assumes "array st = xs @ k # ys" "distinct (array st)" "sessions st k = Some se" "index_s se = int (length xs)"
  shows "Store_destroy st k =
     Inr (st\<lparr>array := xs @ ys, index := index st - 1,
             sessions := (\<lambda>v. if v = k then None else if v \<in> set ys
                  then Some ((lookup (sessions st) v)\<lparr>index_s := index_s (lookup (sessions st) v) - 1\<rparr>)
                  else sessions st v)\<rparr>)"
proof -
  have d: "distinct ys" using assms by simp
  have "reindex ys (sessions st) = (\<lambda>v. if v \<in> set ys
                  then Some ((lookup (sessions st) v)\<lparr>index_s := index_s (lookup (sessions st) v) - 1\<rparr>)
                  else sessions st v)"
    using reindex_distinct[OF d] by auto
  then show ?thesis using assms
    by (auto simp: Store_destroy_def Let_def fun_eq_iff)
qed

lemma inv_position:
  assumes "table_inv st" "sessions st k = Some se"
  shows "\<exists>xs ys. array st = xs @ k # ys \<and> index_s se = int (length xs)"
proof -
  from assms have "k \<in> set (array st)" by (auto simp: table_inv_def)
  then obtain xs ys where s: "array st = xs @ k # ys" by (auto simp: in_set_conv_decomp)
  have "length xs < length (array st)" using s by simp
  with assms(1) have "index_s (lookup (sessions st) (array st ! length xs)) = int (length xs)"
    unfolding table_inv_def by blast
  with s assms(2) have "index_s se = int (length xs)" by simp
  with s show ?thesis by blast
qed

lemma destroy_inv:
  assumes inv: "table_inv st" and k: "sessions st k = Some se"
  shows "\<exists>st'. Store_destroy st k = Inr st' \<and> table_inv st' \<and>
           period st' = period st \<and>
           array st' = filter (\<lambda>v. v \<noteq> k) (array st) \<and>
           (\<forall>v. sessions st' v =
                  (if v = k then None else map_option (shift_above (index_s se)) (sessions st v)))"
proof -
  from inv_position[OF inv k] obtain xs ys where
    s: "array st = xs @ k # ys" and i: "index_s se = int (length xs)" by blast
  have d: "distinct (xs @ k # ys)" using inv s by (simp add: table_inv_def)
  have dm: "set (xs @ k # ys) = dom (sessions st)" using inv s by (simp add: table_inv_def)
  have pos: "\<And>j. j < length (xs @ k # ys) \<Longrightarrow>
      index_s (lookup (sessions st) ((xs @ k # ys) ! j)) = int j"
    using inv s by (simp add: table_inv_def)
  have posx: "\<And>v. v \<in> set xs \<Longrightarrow> index_s (lookup (sessions st) v) < int (length xs)"
  proof -
    fix v assume "v \<in> set xs"
    then obtain j where j: "j < length xs" "xs ! j = v" by (auto simp: in_set_conv_nth)
    with pos[of j] show "index_s (lookup (sessions st) v) < int (length xs)"
      by (simp add: nth_append)
  qed
  have posy: "\<And>j. j < length ys \<Longrightarrow> index_s (lookup (sessions st) (ys ! j)) = int (length xs + 1 + j)"
  proof -
    fix j assume "j < length ys"
    with pos[of "length xs + 1 + j"] show "index_s (lookup (sessions st) (ys ! j)) = int (length xs + 1 + j)"
      by (simp add: nth_append)
  qed
  let ?m = "\<lambda>v. if v = k then None else if v \<in> set ys
                  then Some ((lookup (sessions st) v)\<lparr>index_s := index_s (lookup (sessions st) v) - 1\<rparr>)
                  else sessions st v"
  let ?st = "st\<lparr>array := xs @ ys, index := index st - 1, sessions := ?m\<rparr>"
  have eq: "Store_destroy st k = Inr ?st"
    using destroy_split[OF s _ k i] inv by (simp add: table_inv_def)
  have a: "array ?st = filter (\<lambda>v. v \<noteq> k) (array st)"
  proof -
    have "filter (\<lambda>v. v \<noteq> k) xs = xs" "filter (\<lambda>v. v \<noteq> k) ys = ys"
      using d by (auto simp: filter_id_conv)
    then show ?thesis using s by simp
  qed
  have m: "\<forall>v. sessions ?st v =
                  (if v = k then None else map_option (shift_above (index_s se)) (sessions st v))"
  proof (intro allI)
    fix v
    show "sessions ?st v =
                  (if v = k then None else map_option (shift_above (index_s se)) (sessions st v))"
    proof (cases "v \<in> set ys")
      case True
      then obtain j where j: "j < length ys" "ys ! j = v" by (auto simp: in_set_conv_nth)
      from True dm obtain s' where s': "sessions st v = Some s'" by auto
      from posy[OF j(1)] j(2) s' have "index_s s' = int (length xs + 1 + j)" by simp
      with True s' i d show ?thesis by (auto simp: shift_above_def)
    next
      case False
      show ?thesis
      proof (cases "v \<in> set xs")
        case True
        from True dm obtain s' where s': "sessions st v = Some s'" by auto
        from posx[OF True] s' have "index_s s' < int (length xs)" by simp
        with False s' i d True show ?thesis by (auto simp: shift_above_def)
      next
        case nx: False
        with False dm have "v \<noteq> k \<Longrightarrow> sessions st v = None" by auto
        with False show ?thesis by auto
      qed
    qed
  qed
  have inv': "table_inv ?st"
    unfolding table_inv_def
  proof (intro conjI allI impI)
    show "distinct (array ?st)" using d by simp
    show "set (array ?st) = dom (sessions ?st)"
      using d dm by (auto split: if_splits)
    show "index ?st = int (length (array ?st))" using inv s by (simp add: table_inv_def)
  next
    fix j assume "j < length (array ?st)"
    then have jl: "j < length xs + length ys" by simp
    show "index_s (lookup (sessions ?st) (array ?st ! j)) = int j"
    proof (cases "j < length xs")
      case True
      then have x: "xs ! j \<in> set xs" by simp
      with d have "xs ! j \<noteq> k" "xs ! j \<notin> set ys" by auto
      with pos[of j] True show ?thesis by (simp add: nth_append lookup_def)
    next
      case False
      then have y: "ys ! (j - length xs) \<in> set ys" using jl by simp
      with d have nk: "ys ! (j - length xs) \<noteq> k" by auto
      from posy[of "j - length xs"] jl False
      have "index_s (lookup (sessions st) (ys ! (j - length xs))) = int j + 1" by simp
      with False y nk show ?thesis by (simp add: nth_append lookup_def)
    qed
  qed
  from eq a m inv' show ?thesis by simp
qed

lemma count_list_1_distinct: "distinct xs \<Longrightarrow> k \<in> set xs \<Longrightarrow> count_list xs k = 1"
  by (induction xs) (auto simp: count_list_0_iff)

lemma table_inv_invariant:
  assumes "table_inv st"
  shows "table_invariant st"
proof -
  have d: "distinct (array st)" and dm: "set (array st) = dom (sessions st)"
    and ix: "index st = int (length (array st))"
    using assms by (simp_all add: table_inv_def)
  have c: "card (dom (sessions st)) = length (array st)"
    using d dm distinct_card by metis
  have "\<And>k s. sessions st k = Some s \<Longrightarrow> count_list (array st) k = 1 \<and> 0 \<le> index_s s \<and>
        nat (index_s s) < length (array st) \<and> array st ! nat (index_s s) = k"
  proof -
    fix k s assume k: "sessions st k = Some s"
    from inv_position[OF assms k] obtain xs ys where
      s: "array st = xs @ k # ys" and i: "index_s s = int (length xs)" by blast
    have "k \<in> set (array st)" using s by simp
    with d have "count_list (array st) k = 1" by (rule count_list_1_distinct)
    with s i show "count_list (array st) k = 1 \<and> 0 \<le> index_s s \<and>
        nat (index_s s) < length (array st) \<and> array st ! nat (index_s s) = k" by simp
  qed
  with c ix show ?thesis unfolding table_invariant_def by simp
qed

lemma table_invariant_inv:
  assumes "table_invariant st"
  shows "table_inv st"
proof -
  have key: "\<And>k s. sessions st k = Some s \<Longrightarrow> count_list (array st) k = 1 \<and> 0 \<le> index_s s \<and>
        nat (index_s s) < length (array st) \<and> array st ! nat (index_s s) = k"
    and len: "length (array st) = card (dom (sessions st))"
    and ix: "int (card (dom (sessions st))) = index st"
    using assms unfolding table_invariant_def by blast+
  have sub: "dom (sessions st) \<subseteq> set (array st)"
  proof
    fix k assume "k \<in> dom (sessions st)"
    then obtain s where "sessions st k = Some s" by auto
    from key[OF this] have "count_list (array st) k \<noteq> 0" by simp
    then show "k \<in> set (array st)" by (simp add: count_list_0_iff)
  qed
  then have fin: "finite (dom (sessions st))" by (rule finite_subset) simp
  have "card (set (array st)) \<le> length (array st)" by (rule card_length)
  with len have le: "card (set (array st)) \<le> card (dom (sessions st))" by simp
  have "card (dom (sessions st)) \<le> card (set (array st))"
    using sub by (simp add: card_mono)
  with le have ceq: "card (set (array st)) = card (dom (sessions st))" by simp
  have seteq: "set (array st) = dom (sessions st)"
    using sub ceq by (metis card_subset_eq List.finite_set)
  have d: "distinct (array st)" using ceq len by (simp add: card_distinct)
  have pos: "\<forall>i<length (array st). index_s (lookup (sessions st) (array st ! i)) = int i"
  proof (intro allI impI)
    fix i assume i: "i < length (array st)"
    then have "array st ! i \<in> dom (sessions st)" using seteq by (metis nth_mem)
    then obtain s where s: "sessions st (array st ! i) = Some s" by auto
    from key[OF s] have a: "0 \<le> index_s s" "nat (index_s s) < length (array st)"
      "array st ! nat (index_s s) = array st ! i" by simp_all
    with d i have "nat (index_s s) = i" by (simp add: nth_eq_iff_index_eq)
    with a s show "index_s (lookup (sessions st) (array st ! i)) = int i" by simp
  qed
  from d seteq pos ix len show ?thesis by (simp add: table_inv_def)
qed

lemma Init_inv: "table_inv (store Init)"
  by (simp add: table_inv_def Init_def)

lemma create_inv:
  assumes "table_inv (store w)"
  shows "table_inv (store (snd (command_create c e w)))"
proof (cases "sessions (store w) (key c)")
  case (Some a)
  then show ?thesis using assms by (simp add: command_create_def)
next
  case None
  then have nk: "key c \<notin> set (array (store w))" using assms by (auto simp: table_inv_def)
  have old: "\<And>i. i < length (array (store w)) \<Longrightarrow> array (store w) ! i \<noteq> key c"
    using nk by (metis nth_mem)
  show ?thesis using assms None nk
    by (auto simp: command_create_def Let_def table_inv_def nth_append less_Suc_eq old)
qed

lemma touch_inv:
  assumes "table_inv st"
  shows "table_inv (snd (command_touch c e st))"
  using assms
  by (auto simp: command_touch_def table_inv_def split: option.splits)

lemma command_destroy_inv:
  assumes "table_inv st"
  shows "\<exists>st'. command_destroy c st = Inr st' \<and> table_inv st'"
proof (cases "sessions st (key c)")
  case None
  then show ?thesis using assms by (simp add: command_destroy_def)
next
  case (Some se)
  from destroy_inv[OF assms Some] show ?thesis using Some by (auto simp: command_destroy_def)
qed

lemma timed_out_shift [simp]: "timed_out t (shift_above i s) = timed_out t s"
  by (simp add: timed_out_def shift_above_def)

lemma no_index_shift [simp]: "no_index (shift_above i s) = no_index s"
  by (simp add: no_index_def shift_above_def)

lemma timeout_loop_spec:
  "table_inv st \<Longrightarrow>
   \<exists>st'. timeout_loop kts st = Inr st' \<and> table_inv st' \<and> period st' = period st \<and>
     array st' = filter (\<lambda>v. v \<in> dom (sessions st')) (array st) \<and>
     (\<forall>v. map_option no_index (sessions st' v) =
        (if \<exists>t s. (v, t) \<in> set kts \<and> sessions st v = Some s \<and> timed_out t s then None
         else map_option no_index (sessions st v)))"
proof (induction kts arbitrary: st)
  case Nil
  then have "filter (\<lambda>v. v \<in> dom (sessions st)) (array st) = array st"
    by (auto simp: table_inv_def filter_id_conv)
  with Nil show ?case by simp
next
  case (Cons a kts)
  obtain k t where a: "a = (k, t)" by (cases a)
  show ?case
  proof (cases "sessions st k")
    case None
    from Cons.IH[OF Cons.prems] obtain st' where
      r: "timeout_loop kts st = Inr st'" "table_inv st'" "period st' = period st"
        "array st' = filter (\<lambda>v. v \<in> dom (sessions st')) (array st)"
        "\<forall>v. map_option no_index (sessions st' v) =
        (if \<exists>t s. (v, t) \<in> set kts \<and> sessions st v = Some s \<and> timed_out t s then None
         else map_option no_index (sessions st v))" by blast
    have "\<forall>v. map_option no_index (sessions st' v) =
        (if \<exists>t s. (v, t) \<in> set (a # kts) \<and> sessions st v = Some s \<and> timed_out t s then None
         else map_option no_index (sessions st v))"
      using r(5) None a by auto
    with r None a show ?thesis by simp
  next
    case (Some s)
    show ?thesis
    proof (cases "timed_out t s")
      case False
      from Cons.IH[OF Cons.prems] obtain st' where
        r: "timeout_loop kts st = Inr st'" "table_inv st'" "period st' = period st"
        "array st' = filter (\<lambda>v. v \<in> dom (sessions st')) (array st)"
        "\<forall>v. map_option no_index (sessions st' v) =
        (if \<exists>t s. (v, t) \<in> set kts \<and> sessions st v = Some s \<and> timed_out t s then None
         else map_option no_index (sessions st v))" by blast
      have "\<forall>v. map_option no_index (sessions st' v) =
        (if \<exists>t s. (v, t) \<in> set (a # kts) \<and> sessions st v = Some s \<and> timed_out t s then None
         else map_option no_index (sessions st v))"
        using r(5) Some False a by auto
      moreover have "timeout_loop (a # kts) st = Inr st'"
        using r(1) Some False a by (simp add: timed_out_def)
      ultimately show ?thesis using r by blast
    next
      case True
      from destroy_inv[OF Cons.prems Some] obtain st1 where
        d: "Store_destroy st k = Inr st1" "table_inv st1" "period st1 = period st"
          "array st1 = filter (\<lambda>v. v \<noteq> k) (array st)"
          "\<forall>v. sessions st1 v =
                  (if v = k then None else map_option (shift_above (index_s s)) (sessions st v))"
        by blast
      from Cons.IH[OF d(2)] obtain st' where
        r: "timeout_loop kts st1 = Inr st'" "table_inv st'" "period st' = period st1"
        "array st' = filter (\<lambda>v. v \<in> dom (sessions st')) (array st1)"
        "\<forall>v. map_option no_index (sessions st' v) =
        (if \<exists>t s. (v, t) \<in> set kts \<and> sessions st1 v = Some s \<and> timed_out t s then None
         else map_option no_index (sessions st1 v))" by blast
      have run: "timeout_loop (a # kts) st = Inr st'"
        using r(1) d(1) Some True a by (simp add: timed_out_def)
      have m: "\<forall>v. map_option no_index (sessions st' v) =
        (if \<exists>t s. (v, t) \<in> set (a # kts) \<and> sessions st v = Some s \<and> timed_out t s then None
         else map_option no_index (sessions st v))"
      proof
        fix v
        show "map_option no_index (sessions st' v) =
        (if \<exists>t s. (v, t) \<in> set (a # kts) \<and> sessions st v = Some s \<and> timed_out t s then None
         else map_option no_index (sessions st v))"
        proof (cases "v = k")
          case vk: True
          with d(5) have "sessions st1 v = None" by simp
          with r(5) have "map_option no_index (sessions st' v) = None" by simp
          moreover have "\<exists>t s. (v, t) \<in> set (a # kts) \<and> sessions st v = Some s \<and> timed_out t s"
            using vk a Some True by auto
          ultimately show ?thesis by simp
        next
          case nk: False
          with d(5) have e: "sessions st1 v = map_option (shift_above (index_s s)) (sessions st v)"
            by simp
          have A: "(\<exists>t s. (v, t) \<in> set kts \<and> sessions st1 v = Some s \<and> timed_out t s) =
                (\<exists>t s. (v, t) \<in> set (a # kts) \<and> sessions st v = Some s \<and> timed_out t s)"
            using nk a e by (cases "sessions st v") auto
          have B: "map_option no_index (sessions st1 v) = map_option no_index (sessions st v)"
            using e by (cases "sessions st v") auto
          from r(5) have "map_option no_index (sessions st' v) =
            (if \<exists>t s. (v, t) \<in> set kts \<and> sessions st1 v = Some s \<and> timed_out t s then None
             else map_option no_index (sessions st1 v))" by (rule spec)
          then show ?thesis by (simp only: A B)
        qed
      qed
      have nk': "k \<notin> dom (sessions st')"
      proof -
        from d(5) have "sessions st1 k = None" by simp
        with r(5) have "map_option no_index (sessions st' k) = None" by simp
        then show ?thesis by auto
      qed
      have arr: "array st' = filter (\<lambda>v. v \<in> dom (sessions st')) (array st)"
      proof -
        have "array st' = filter (\<lambda>v. v \<in> dom (sessions st') \<and> v \<noteq> k) (array st)"
          using r(4) d(4) by (simp add: conj_commute)
        also have "\<dots> = filter (\<lambda>v. v \<in> dom (sessions st')) (array st)"
          using nk' by (intro filter_cong) auto
        finally show ?thesis .
      qed
      from run r(2) r(3) d(3) arr m show ?thesis by simp
    qed
  qed
qed

lemma serve_inv:
  assumes "table_inv (store w)" "cmd c \<noteq> exit"
  shows "\<exists>r w'. serve c e w = Inr (r, w') \<and> table_inv (store w')"
proof (cases "cmd c")
  case create
  then show ?thesis using create_inv[OF assms(1), of c e]
    by (cases "command_create c e w") (simp add: serve_def)
next
  case activate
  then show ?thesis using assms by (simp add: serve_def)
next
  case deactivate
  then show ?thesis using command_destroy_inv[OF assms(1), of c]
    by (auto simp: serve_def)
next
  case touch
  then show ?thesis using touch_inv[OF assms(1), of c e]
    by (cases "command_touch c e (store w)") (simp add: serve_def)
next
  case timecheck
  then show ?thesis using timeout_loop_spec[OF assms(1), of "iter e"]
    by (auto simp: serve_def command_timeout_def)
next
  case exit
  then show ?thesis using assms by simp
qed

lemma sessionServer_inv:
  "table_inv (store w) \<Longrightarrow> \<forall>ce\<in>set cs. cmd (fst ce) \<noteq> exit \<Longrightarrow>
   \<exists>w'. sessionServer cs w = Inr w' \<and> table_inv (store w')"
proof (induction cs arbitrary: w)
  case Nil
  then show ?case by simp
next
  case (Cons a cs)
  obtain c e where a: "a = (c, e)" by (cases a)
  with Cons.prems have "cmd c \<noteq> exit" by simp
  from serve_inv[OF Cons.prems(1) this, of e] obtain r w1 where
    s: "serve c e w = Inr (r, w1)" "table_inv (store w1)" by blast
  from Cons.IH[OF s(2)] Cons.prems(2) obtain w' where
    "sessionServer cs w1 = Inr w'" "table_inv (store w')" by auto
  with s a show ?case by simp
qed

subsection \<open>The invariant holds after every queue of commands\<close>

lemmas ex_eval = Init_def serve_def command_create_def command_touch_def command_retrieve_def
  command_destroy_def command_timeout_def Store_destroy_def Let_def Since_def Second_def
  Minute_def defaultPeriod_def divisor_def div64_def lookup_def word_sle_eq word_sless_alt

text \<open>Claim C1. Whatever queue of create, touch, destroy and sweep commands the
  server runs from the empty table, with any readings of the clock and any order of
  iteration, it runs to the end without a panic and the table invariant holds in the
  table it leaves: every key of \<open>sessions\<close> stands exactly once in \<open>array\<close>, at the
  position of the session's index field, and the length of \<open>array\<close>, the size of
  \<open>sessions\<close> and the counter \<open>index\<close> are equal.\<close>

theorem table_invariant_reachable:
  assumes "\<forall>ce\<in>set cs. cmd (fst ce) \<in> {create, touch, deactivate, timecheck}"
  shows "\<exists>w. sessionServer cs (Init :: 'v world) = Inr w \<and> table_invariant (store w)"
proof -
  from assms have "\<forall>ce\<in>set cs. cmd (fst ce) \<noteq> exit" by auto
  from sessionServer_inv[OF Init_inv this] show ?thesis
    using table_inv_invariant by blast
qed

theorem table_invariant_reachable_witness:
  "\<exists>w. sessionServer ex_queue (Init :: nat world) = Inr w \<and> table_invariant (store w) \<and>
       array (store w) = [3] \<and> index (store w) = 1"
proof -
  have "\<exists>w. sessionServer ex_queue (Init :: nat world) = Inr w \<and>
          array (store w) = [3] \<and> index (store w) = 1"
    by (simp add: ex_queue_def ex_eval)
  moreover have "\<exists>w. sessionServer ex_queue (Init :: nat world) = Inr w \<and>
          table_invariant (store w)"
    using table_invariant_reachable[of ex_queue] by (simp add: ex_queue_def)
  ultimately show ?thesis by auto
qed

subsection \<open>The sweep\<close>

lemma ex_table_inv: "table_inv ex_table"
  by (auto simp: table_inv_def ex_table_def lookup_def less_Suc_eq)

text \<open>Claim C4, amended. A sweep runs at instant \<open>now\<close> on a table that satisfies the
  invariant and comes to every key of the table. Then it ends without a panic, and a
  session is removed if and only if \<^verbatim>\<open>time.Since\<close> of its last-modified time exceeds its
  own maxage. A session that is not removed keeps every field but its index, which is
  its new position in \<open>array\<close>: the invariant holds again, and \<open>array\<close> is the old one
  without the removed keys.\<close>

theorem sweep_removes_timed_out:
  assumes "table_invariant st" and "set ks = dom (sessions st)"
    and "iter e = map (\<lambda>k. (k, now)) ks"
  shows "\<exists>st'. command_timeout e st = Inr st' \<and> table_invariant st' \<and>
     period st' = period st \<and>
     array st' = filter (\<lambda>k. k \<in> dom (sessions st')) (array st) \<and>
     (\<forall>k. sessions st k = None \<longrightarrow> sessions st' k = None) \<and>
     (\<forall>k s. sessions st k = Some s \<longrightarrow>
        (if timed_out now s then sessions st' k = None
         else \<exists>i. sessions st' k = Some (s\<lparr>index_s := i\<rparr>)))"
proof -
  from timeout_loop_spec[OF table_invariant_inv[OF assms(1)], of "iter e"] obtain st' where
    r: "timeout_loop (iter e) st = Inr st'" "table_inv st'" "period st' = period st"
      "array st' = filter (\<lambda>v. v \<in> dom (sessions st')) (array st)"
    and m: "\<And>v. map_option no_index (sessions st' v) =
        (if \<exists>t s. (v, t) \<in> set (iter e) \<and> sessions st v = Some s \<and> timed_out t s then None
         else map_option no_index (sessions st v))" by blast
  have a: "\<forall>k. sessions st k = None \<longrightarrow> sessions st' k = None"
    using m by (metis map_option_is_None option.distinct(1) option.simps(8))
  have b: "\<forall>k s. sessions st k = Some s \<longrightarrow>
        (if timed_out now s then sessions st' k = None
         else \<exists>i. sessions st' k = Some (s\<lparr>index_s := i\<rparr>))"
  proof (intro allI impI)
    fix k s assume k: "sessions st k = Some s"
    then have "k \<in> set ks" using assms(2) by auto
    then have in_it: "(k, now) \<in> set (iter e)" using assms(3) by auto
    have only: "\<And>t. (k, t) \<in> set (iter e) \<Longrightarrow> t = now" using assms(3) by auto
    show "if timed_out now s then sessions st' k = None
         else \<exists>i. sessions st' k = Some (s\<lparr>index_s := i\<rparr>)"
    proof (cases "timed_out now s")
      case True
      with in_it k have "\<exists>t s. (k, t) \<in> set (iter e) \<and> sessions st k = Some s \<and> timed_out t s"
        by blast
      with m[of k] have "map_option no_index (sessions st' k) = None" by simp
      with True show ?thesis by simp
    next
      case False
      with only k have "\<not> (\<exists>t s. (k, t) \<in> set (iter e) \<and> sessions st k = Some s \<and> timed_out t s)"
        by auto
      with m[of k] k have "map_option no_index (sessions st' k) = Some (no_index s)" by simp
      then obtain s' where s': "sessions st' k = Some s'" "no_index s' = no_index s" by auto
      from s'(2) have "s' = s\<lparr>index_s := index_s s'\<rparr>"
        by (simp add: no_index_def) (metis Session.surjective Session.update_convs(5))
      with s'(1) False show ?thesis by auto
    qed
  qed
  from r a b show ?thesis using table_inv_invariant by (auto simp: command_timeout_def)
qed

lemma ex_table_dom: "set [1, 2] = dom (sessions ex_table)"
  by (auto simp: ex_table_def)

lemma ex_sweep_run: "command_timeout ex_sweep ex_table = Inr ex_swept"
  by (simp add: ex_sweep_def ex_table_def ex_swept_def ex_eval fun_eq_iff)

theorem sweep_removes_timed_out_witness:
  "table_invariant ex_table \<and> set [1, 2] = dom (sessions ex_table) \<and>
   iter ex_sweep = map (\<lambda>k. (k, 6000000000)) [1, 2] \<and>
   (\<exists>st'. command_timeout ex_sweep ex_table = Inr st' \<and> table_invariant st' \<and>
     period st' = period ex_table \<and>
     array st' = filter (\<lambda>k. k \<in> dom (sessions st')) (array ex_table) \<and>
     (\<forall>k. sessions ex_table k = None \<longrightarrow> sessions st' k = None) \<and>
     (\<forall>k s. sessions ex_table k = Some s \<longrightarrow>
        (if timed_out 6000000000 s then sessions st' k = None
         else \<exists>i. sessions st' k = Some (s\<lparr>index_s := i\<rparr>))))"
proof -
  have h1: "table_invariant ex_table" by (rule table_inv_invariant[OF ex_table_inv])
  have h3: "iter ex_sweep = map (\<lambda>k. (k, 6000000000)) [1, 2]" by (simp add: ex_sweep_def)
  from sweep_removes_timed_out[OF h1 ex_table_dom h3] h1 ex_table_dom h3 show ?thesis by blast
qed

text \<open>The claim as it was stated also says that a session that stays is unchanged. In
  the table of two sessions the sweep removes the first; the second has not timed out,
  and its entry after the sweep differs from its entry before: the index went from 1
  to 0.\<close>

theorem sweep_unchanged_counterexample:
  "table_invariant ex_table \<and>
   command_timeout ex_sweep ex_table = Inr ex_swept \<and>
   sessions ex_table 2 =
     Some \<lparr>id_s = 2, data = Some 1, created = 0, modified = 0, index_s = 1,
            sto = Some (), maxage_s = 50 * Second, active = True\<rparr> \<and>
   \<not> timed_out 6000000000
        \<lparr>id_s = 2, data = Some 1, created = 0, modified = 0, index_s = 1,
            sto = Some (), maxage_s = 50 * Second, active = True\<rparr> \<and>
   sessions ex_swept 2 \<noteq> sessions ex_table 2"
proof -
  have h1: "table_invariant ex_table" by (rule table_inv_invariant[OF ex_table_inv])
  have "\<not> timed_out 6000000000
        \<lparr>id_s = 2, data = Some 1, created = 0, modified = 0, index_s = 1,
            sto = Some (), maxage_s = 50 * Second, active = True\<rparr>"
    by (simp add: timed_out_def ex_eval)
  moreover have "sessions ex_swept 2 \<noteq> sessions ex_table 2"
    by (simp add: ex_swept_def ex_table_def)
  moreover have "sessions ex_table 2 =
     Some \<lparr>id_s = 2, data = Some 1, created = 0, modified = 0, index_s = 1,
            sto = Some (), maxage_s = 50 * Second, active = True\<rparr>"
    by (simp add: ex_table_def)
  ultimately show ?thesis using h1 ex_sweep_run by blast
qed

subsection \<open>Restore and the last-modified time\<close>

lemma no_index_modified: "no_index s' = no_index s \<Longrightarrow> modified s' = modified s"
  by (simp add: no_index_def) (metis Session.select_convs(4) Session.surjective Session.update_convs(5))

lemma serve_keeps_modified:
  assumes inv: "table_inv (store w)" and c: "cmd c \<noteq> touch"
    and run: "serve c e w = Inr (r, w')"
    and k: "sessions (store w) k = Some s" and k': "sessions (store w') k = Some s'"
  shows "modified s' = modified s"
proof (cases "cmd c")
  case create
  with run k k' show ?thesis
    by (auto simp: serve_def command_create_def Let_def split: if_splits)
next
  case activate
  with run k k' show ?thesis by (auto simp: serve_def)
next
  case deactivate
  show ?thesis
  proof (cases "sessions (store w) (key c)")
    case None
    with deactivate run k k' show ?thesis by (auto simp: serve_def command_destroy_def)
  next
    case (Some se)
    from destroy_inv[OF inv Some] obtain st' where
      d: "Store_destroy (store w) (key c) = Inr st'"
      "\<forall>v. sessions st' v =
             (if v = key c then None else map_option (shift_above (index_s se)) (sessions (store w) v))"
      by blast
    from d(1) deactivate run Some have "store w' = st'"
      by (auto simp: serve_def command_destroy_def)
    with d(2) k k' have "s' = shift_above (index_s se) s" by (auto split: if_splits)
    then show ?thesis by (simp add: shift_above_def)
  qed
next
  case touch
  with c show ?thesis by simp
next
  case timecheck
  from timeout_loop_spec[OF inv, of "iter e"] obtain st' where
    t: "timeout_loop (iter e) (store w) = Inr st'"
    "\<forall>v. map_option no_index (sessions st' v) =
        (if \<exists>t s. (v, t) \<in> set (iter e) \<and> sessions (store w) v = Some s \<and> timed_out t s then None
         else map_option no_index (sessions (store w) v))" by blast
  from t(1) timecheck run have "store w' = st'"
    by (auto simp: serve_def command_timeout_def)
  with t(2) k k' have "no_index s' = no_index s"
    by (metis option.distinct(1) option.inject option.simps(9))
  then show ?thesis by (rule no_index_modified)
next
  case exit
  with run show ?thesis by (simp add: serve_def)
qed

text \<open>Claim C2, amended. For an id in the table, the \<^verbatim>\<open>activate\<close> command (function
  \<^verbatim>\<open>retrieve\<close>) replies with a copy that carries the requested maxage and leaves the
  world, and so the stored last-modified time, unchanged. \<^verbatim>\<open>Store.Restore\<close> does not send
  that command: it sends \<^verbatim>\<open>touch\<close>, so for a valid id it sets the stored last-modified
  time to the reading of the clock and changes nothing else. On a table that satisfies
  the invariant no command other than \<^verbatim>\<open>touch\<close> changes the last-modified time of a
  stored session.\<close>

theorem Restore_refreshes_modified:
  assumes "sessions (store w) sid = Some s"
  shows "serve \<lparr>cmd = activate, key = sid, maxage = mx\<rparr> e w = Inr (s\<lparr>maxage_s := mx\<rparr>, w) \<and>
         (vr sid = Invalid \<or>
          (\<exists>r. Store_Restore vr sid e w =
                  Inr (r, w\<lparr>store := (store w)\<lparr>sessions :=
                             (sessions (store w))(sid \<mapsto> s\<lparr>modified := now1 e\<rparr>)\<rparr>\<rparr>) \<and>
               (\<not> active s \<or> r = (s\<lparr>modified := now1 e\<rparr>, None)))) \<and>
         (\<forall>c e' r w' s'. table_invariant (store w) \<and> cmd c \<noteq> touch \<and>
              serve c e' w = Inr (r, w') \<and> sessions (store w') sid = Some s' \<longrightarrow>
              modified s' = modified s)"
proof (intro conjI allI impI)
  show "serve \<lparr>cmd = activate, key = sid, maxage = mx\<rparr> e w = Inr (s\<lparr>maxage_s := mx\<rparr>, w)"
    using assms by (simp add: serve_def command_retrieve_def)
  show "vr sid = Invalid \<or>
          (\<exists>r. Store_Restore vr sid e w =
                  Inr (r, w\<lparr>store := (store w)\<lparr>sessions :=
                             (sessions (store w))(sid \<mapsto> s\<lparr>modified := now1 e\<rparr>)\<rparr>\<rparr>) \<and>
               (\<not> active s \<or> r = (s\<lparr>modified := now1 e\<rparr>, None)))"
    using assms by (auto simp: Store_Restore_def serve_def command_touch_def)
next
  fix c e' r w' s'
  assume a: "table_invariant (store w) \<and> cmd c \<noteq> touch \<and>
              serve c e' w = Inr (r, w') \<and> sessions (store w') sid = Some s'"
  then have "table_inv (store w)" using table_invariant_inv by blast
  from serve_keeps_modified[OF this, of c e' r w' sid s s'] a assms
  show "modified s' = modified s" by blast
qed

lemma ex_world_1: "sessions (store ex_world) 1 = Some ex_session1"
  by (simp add: ex_world_def ex_table_def ex_session1_def)

lemma ex_world_inv: "table_invariant (store ex_world)"
  using table_inv_invariant[OF ex_table_inv] by (simp add: ex_world_def)

theorem Restore_refreshes_modified_witness:
  "sessions (store ex_world) 1 = Some ex_session1 \<and>
   serve \<lparr>cmd = activate, key = 1, maxage = 9\<rparr> ex_env ex_world =
     Inr (ex_session1\<lparr>maxage_s := 9\<rparr>, ex_world) \<and>
   Store_Restore UUID_Variant 1 ex_env ex_world =
     Inr ((ex_session1\<lparr>modified := 5\<rparr>, None),
          ex_world\<lparr>store := (store ex_world)\<lparr>sessions :=
             (sessions (store ex_world))(1 \<mapsto> ex_session1\<lparr>modified := 5\<rparr>)\<rparr>\<rparr>) \<and>
   (\<exists>r w' s'. serve \<lparr>cmd = deactivate, key = 2, maxage = 0\<rparr> ex_env ex_world = Inr (r, w') \<and>
       sessions (store w') 1 = Some s' \<and> modified s' = modified ex_session1)"
proof -
  have v: "UUID_Variant 1 \<noteq> Invalid" by (simp add: UUID_Variant_valid)
  have a: "active ex_session1" "now1 ex_env = 5" by (simp_all add: ex_session1_def ex_env_def)
  have d: "\<exists>r w' s'. serve \<lparr>cmd = deactivate, key = 2, maxage = 0\<rparr> ex_env ex_world = Inr (r, w') \<and>
       sessions (store w') 1 = Some s'"
    by (simp add: ex_world_def ex_table_def ex_eval)
  have t: "cmd \<lparr>cmd = deactivate, key = 2, maxage = 0\<rparr> \<noteq> touch" by simp
  from Restore_refreshes_modified[OF ex_world_1, of 9 ex_env UUID_Variant] v a
  have 1: "serve \<lparr>cmd = activate, key = 1, maxage = 9\<rparr> ex_env ex_world =
     Inr (ex_session1\<lparr>maxage_s := 9\<rparr>, ex_world)"
    and 2: "Store_Restore UUID_Variant 1 ex_env ex_world =
     Inr ((ex_session1\<lparr>modified := 5\<rparr>, None),
          ex_world\<lparr>store := (store ex_world)\<lparr>sessions :=
             (sessions (store ex_world))(1 \<mapsto> ex_session1\<lparr>modified := 5\<rparr>)\<rparr>\<rparr>)"
    and 3: "\<And>c e' r w' s'. table_invariant (store ex_world) \<and> cmd c \<noteq> touch \<and>
              serve c e' ex_world = Inr (r, w') \<and> sessions (store w') 1 = Some s' \<Longrightarrow>
              modified s' = modified ex_session1"
    by auto
  from d 3 ex_world_inv t
  have "\<exists>r w' s'. serve \<lparr>cmd = deactivate, key = 2, maxage = 0\<rparr> ex_env ex_world = Inr (r, w') \<and>
       sessions (store w') 1 = Some s' \<and> modified s' = modified ex_session1"
    by blast
  with 1 2 ex_world_1 show ?thesis by blast
qed

text \<open>The claim as it was stated has \<^verbatim>\<open>Restore\<close> leave the stored time unchanged. The
  first session of the table of two was last modified at 0; after \<^verbatim>\<open>Store.Restore\<close> at
  clock reading 5 its stored last-modified time is 5.\<close>

theorem Restore_unchanged_counterexample:
  "map_option modified (sessions (store ex_world) 1) = Some 0 \<and>
   UUID_Variant 1 \<noteq> Invalid \<and> now1 ex_env = 5 \<and>
   Store_Restore UUID_Variant 1 ex_env ex_world =
     Inr ((ex_session1\<lparr>modified := 5\<rparr>, None),
          ex_world\<lparr>store := (store ex_world)\<lparr>sessions :=
             (sessions (store ex_world))(1 \<mapsto> ex_session1\<lparr>modified := 5\<rparr>)\<rparr>\<rparr>) \<and>
   map_option modified
     (sessions (store (ex_world\<lparr>store := (store ex_world)\<lparr>sessions :=
             (sessions (store ex_world))(1 \<mapsto> ex_session1\<lparr>modified := 5\<rparr>)\<rparr>\<rparr>)) 1) = Some 5"
  by (simp add: ex_world_1 UUID_Variant_valid ex_env_def Store_Restore_def serve_def
      command_touch_def ex_session1_def)

subsection \<open>Create on an id in use\<close>

text \<open>Claim C3. When the id is already in the table, the create command replies with
  the zero session, which is not active, and \<^verbatim>\<open>Store.Create\<close> returns the zero session
  with an error (the sentinel \<^verbatim>\<open>ErrNoSession\<close> when the id passed the validity check):
  never a session with a nil error. The world after the call is the world before it:
  the table and the contents of every value store are unchanged.\<close>

theorem create_collision:
  assumes "sessions (store w) sid = Some s"
  shows "command_create \<lparr>cmd = create, key = sid, maxage = mx\<rparr> e w = (Session0, w) \<and>
         \<not> Valid Session0 \<and>
         (\<exists>er. Store_Create vr sid n e w = Inr ((Session0, Some (''Store.Create'', er)), w) \<and>
               (vr sid = Invalid \<or> er = ErrNoSession))"
  using assms
  by (simp add: command_create_def Store_Create_def serve_def Valid_def Session0_def)

theorem create_collision_witness:
  "sessions (store ex_world) 1 =
     Some \<lparr>id_s = 1, data = Some 0, created = 0, modified = 0, index_s = 0,
            sto = Some (), maxage_s = 5 * Second, active = True\<rparr> \<and>
   command_create \<lparr>cmd = create, key = 1, maxage = 7\<rparr> ex_env ex_world = (Session0, ex_world) \<and>
   \<not> Valid Session0 \<and>
   Store_Create UUID_Variant 1 7 ex_env ex_world =
     Inr ((Session0, Some (''Store.Create'', ErrNoSession)), ex_world)"
proof -
  have h: "sessions (store ex_world) 1 =
     Some \<lparr>id_s = 1, data = Some 0, created = 0, modified = 0, index_s = 0,
            sto = Some (), maxage_s = 5 * Second, active = True\<rparr>"
    by (simp add: ex_world_def ex_table_def)
  have v: "UUID_Variant 1 \<noteq> Invalid" by (simp add: UUID_Variant_valid)
  from create_collision[OF h, of 7 ex_env UUID_Variant 7] h v show ?thesis by auto
qed

subsection \<open>Destroy\<close>

lemma Store_destroy_absent:
  "Store_destroy st k = Inr st' \<Longrightarrow> sessions st' k = None"
  by (auto simp: Store_destroy_def Let_def split: option.splits if_splits)

lemma Destroy_leaves_absent:
  assumes "vr sid \<noteq> Invalid" "Store_Destroy vr sid e w = Inr (r, w1)"
  shows "sessions (store w1) sid = None"
proof -
  from assms obtain st1 where
    c: "command_destroy \<lparr>cmd = deactivate, key = sid, maxage = 0\<rparr> (store w) = Inr st1"
    and w1: "w1 = w\<lparr>store := st1\<rparr>"
    by (auto simp: Store_Destroy_def serve_def split: sum.splits)
  have "sessions st1 sid = None"
    using c Store_destroy_absent[of "store w" sid st1]
    by (auto simp: command_destroy_def split: if_splits)
  with w1 show ?thesis by simp
qed

text \<open>Claim C5. For a valid id: when the id is absent, \<^verbatim>\<open>Store.Destroy\<close> returns no
  error and leaves the world unchanged; on a table that satisfies the invariant it
  always returns, with no error; and whenever it returns, the id is absent afterwards
  and a second \<^verbatim>\<open>Destroy\<close> of the same id returns no error and leaves the world as the
  first call left it.\<close>

theorem Destroy_idempotent:
  assumes "vr sid \<noteq> Invalid"
  shows "(sessions (store w) sid = None \<longrightarrow> Store_Destroy vr sid e w = Inr (None, w)) \<and>
         (table_invariant (store w) \<longrightarrow> (\<exists>w1. Store_Destroy vr sid e w = Inr (None, w1))) \<and>
         (\<forall>r w1. Store_Destroy vr sid e w = Inr (r, w1) \<longrightarrow>
            r = None \<and> sessions (store w1) sid = None \<and>
            Store_Destroy vr sid e' w1 = Inr (None, w1))"
proof (intro conjI allI impI)
  assume "sessions (store w) sid = None"
  with assms show "Store_Destroy vr sid e w = Inr (None, w)"
    by (simp add: Store_Destroy_def serve_def command_destroy_def)
next
  assume "table_invariant (store w)"
  then have "table_inv (store w)" by (rule table_invariant_inv)
  from command_destroy_inv[OF this, of "\<lparr>cmd = deactivate, key = sid, maxage = 0\<rparr>"]
  show "\<exists>w1. Store_Destroy vr sid e w = Inr (None, w1)"
    using assms by (auto simp: Store_Destroy_def serve_def)
next
  fix r w1 assume d: "Store_Destroy vr sid e w = Inr (r, w1)"
  show "r = None"
    using assms d by (auto simp: Store_Destroy_def split: sum.splits)
  show gone: "sessions (store w1) sid = None"
    using assms d by (rule Destroy_leaves_absent)
  show "Store_Destroy vr sid e' w1 = Inr (None, w1)"
    using assms gone by (simp add: Store_Destroy_def serve_def command_destroy_def)
qed

theorem Destroy_idempotent_witness:
  "UUID_Variant 1 \<noteq> Invalid \<and> UUID_Variant 9 \<noteq> Invalid \<and>
   sessions (store ex_world) 9 = None \<and>
   Store_Destroy UUID_Variant 9 ex_env ex_world = Inr (None, ex_world) \<and>
   table_invariant (store ex_world) \<and>
   (\<exists>w1. Store_Destroy UUID_Variant 1 ex_env ex_world = Inr (None, w1) \<and>
      sessions (store w1) 1 = None \<and>
      Store_Destroy UUID_Variant 1 ex_env w1 = Inr (None, w1))"
proof -
  have v: "UUID_Variant 1 \<noteq> Invalid" "UUID_Variant 9 \<noteq> Invalid" by (simp_all add: UUID_Variant_valid)
  have a: "sessions (store ex_world) 9 = None" by (simp add: ex_world_def ex_table_def)
  have i: "table_invariant (store ex_world)"
    using table_inv_invariant[OF ex_table_inv] by (simp add: ex_world_def)
  from Destroy_idempotent[where vr = UUID_Variant and sid = 9 and w = ex_world
      and e = ex_env and e' = ex_env] v a
  have 1: "Store_Destroy UUID_Variant 9 ex_env ex_world = Inr (None, ex_world)" by blast
  from Destroy_idempotent[where vr = UUID_Variant and sid = 1 and w = ex_world
      and e = ex_env and e' = ex_env] v i
  have 2: "\<exists>w1. Store_Destroy UUID_Variant 1 ex_env ex_world = Inr (None, w1) \<and>
      sessions (store w1) 1 = None \<and>
      Store_Destroy UUID_Variant 1 ex_env w1 = Inr (None, w1)" by blast
  from v a i 1 2 show ?thesis by blast
qed

subsection \<open>Create, then Restore\<close>

text \<open>Claim C7. For a valid id that is not in the table, \<^verbatim>\<open>Store.Create\<close> succeeds, and
  \<^verbatim>\<open>Store.Restore\<close> of the same id right after it succeeds too; the session it returns
  points to the same value store as the created one, and the contents of that store are
  the same (empty) after both calls.\<close>

theorem Create_then_Restore:
  assumes "vr sid \<noteq> Invalid" and "sessions (store w) sid = None"
  shows "\<exists>s1 w1 s2 w2.
           Store_Create vr sid n e1 w = Inr ((s1, None), w1) \<and>
           Store_Restore vr sid e2 w1 = Inr ((s2, None), w2) \<and>
           Valid s1 \<and> Valid s2 \<and> id_s s2 = sid \<and> data s2 = data s1 \<and>
           map_read (data s1) w1 = Map.empty \<and>
           map_read (data s2) w2 = map_read (data s1) w1"
  using assms
  by (simp add: Store_Create_def Store_Restore_def serve_def command_create_def
      command_touch_def Let_def Valid_def map_read_def)

theorem Create_then_Restore_witness:
  "UUID_Variant 9 \<noteq> Invalid \<and> sessions (store ex_world) 9 = None \<and>
   (\<exists>s1 w1 s2 w2.
           Store_Create UUID_Variant 9 0 ex_env ex_world = Inr ((s1, None), w1) \<and>
           Store_Restore UUID_Variant 9 ex_env w1 = Inr ((s2, None), w2) \<and>
           Valid s1 \<and> Valid s2 \<and> id_s s2 = 9 \<and> data s2 = data s1 \<and>
           map_read (data s1) w1 = Map.empty \<and>
           map_read (data s2) w2 = map_read (data s1) w1)"
proof -
  have v: "UUID_Variant 9 \<noteq> Invalid" by (simp add: UUID_Variant_valid)
  have a: "sessions (store ex_world) 9 = None" by (simp add: ex_world_def ex_table_def)
  from Create_then_Restore[where vr = UUID_Variant and sid = 9 and w = ex_world
      and n = 0 and ?e1.0 = ex_env and ?e2.0 = ex_env] v a
  show ?thesis by blast
qed

subsection \<open>The maxage of a new session\<close>

lemma div64_half: "sint (div64 p divisor) = sint p sdiv 2"
proof -
  have r: "- (2 ^ 63) \<le> sint p" "sint p < 2 ^ 63"
    using sint_ge[of p] sint_lt[of p] by simp_all
  have "- (2 ^ 63) \<le> sint p sdiv 2 \<and> sint p sdiv 2 < 2 ^ 63"
    using r by (auto simp: signed_divide_int_def sgn_if abs_if)
  then have "sint (word_of_int (sint p sdiv 2) :: 64 word) = sint p sdiv 2"
    by (simp add: sint_sbintrunc' signed_take_bit_int_eq_self)
  then show ?thesis by (simp add: div64_def divisor_def)
qed

text \<open>Claim C8. A create command for an id that is not in the table succeeds; the new
  session, as returned and as stored, has the requested maxage when that is positive
  and otherwise the period of the store divided by \<^verbatim>\<open>divisor\<close>, which is half the
  period, rounded towards zero. Through \<^verbatim>\<open>Store.Create\<close> the request is the argument
  times \<^verbatim>\<open>time.Second\<close>.\<close>

theorem create_maxage:
  assumes "sessions (store w) (key c) = None"
  shows "(\<exists>s w'. command_create c e w = (s, w') \<and> Valid s \<and>
            sessions (store w') (key c) = Some s \<and>
            maxage_s s = (if 0 <s maxage c then maxage c else div64 (period (store w)) divisor)) \<and>
         sint (div64 (period (store w)) divisor) = sint (period (store w)) sdiv 2 \<and>
         (vr (key c) = Invalid \<or>
          (\<exists>s w'. Store_Create vr (key c) n e w = Inr ((s, None), w') \<and>
             maxage_s s =
               (if 0 <s n * Second then n * Second else div64 (period (store w)) divisor)))"
  using assms
  by (auto simp: command_create_def Let_def Valid_def div64_half word_sle_eq word_sless_alt
      Store_Create_def serve_def)

theorem create_maxage_witness:
  "sessions (store (Init :: nat world)) 1 = None \<and>
   period (store (Init :: nat world)) = 1200000000000 \<and>
   (\<exists>s w'. command_create \<lparr>cmd = create, key = 1, maxage = 0\<rparr> ex_env (Init :: nat world) = (s, w') \<and>
       Valid s \<and> sessions (store w') 1 = Some s \<and> maxage_s s = 600000000000) \<and>
   (\<exists>s w'. command_create \<lparr>cmd = create, key = 1, maxage = 7\<rparr> ex_env (Init :: nat world) = (s, w') \<and>
       Valid s \<and> sessions (store w') 1 = Some s \<and> maxage_s s = 7) \<and>
   (\<exists>s w'. Store_Create UUID_Variant 1 3 ex_env (Init :: nat world) = Inr ((s, None), w') \<and>
       maxage_s s = 3000000000)"
proof -
  have a: "sessions (store (Init :: nat world)) (key \<lparr>cmd = create, key = 1, maxage = 0\<rparr>) = None"
    "sessions (store (Init :: nat world)) (key \<lparr>cmd = create, key = 1, maxage = 7\<rparr>) = None"
    by (simp_all add: Init_def)
  have p: "period (store (Init :: nat world)) = 1200000000000"
    by (simp add: Init_def Minute_def Second_def defaultPeriod_def)
  have h: "div64 1200000000000 divisor = 600000000000"
    by (simp add: div64_def divisor_def signed_divide_int_def)
  have v: "UUID_Variant 1 \<noteq> Invalid" by (simp add: UUID_Variant_valid)
  have z: "\<not> (0::64 word) <s 0" "(0::64 word) <s 7" "(0::64 word) <s 3 * Second"
    "3 * Second = (3000000000 :: 64 word)"
    by (simp_all add: word_sless_alt Second_def)
  from create_maxage[OF a(1), of ex_env UUID_Variant 3] create_maxage[OF a(2), of ex_env UUID_Variant 3]
    a p h v z
  show ?thesis by simp
qed

text \<open>Between \<open>-9223372036\<close> and \<open>9223372036\<close> seconds the product with \<^verbatim>\<open>time.Second\<close>
  does not wrap around: \<^verbatim>\<open>Store.Create\<close> then gives the new session that many seconds
  when the argument is positive, and half the period otherwise.\<close>

lemma seconds_in_range:
  assumes "- 9223372036 \<le> sint (n :: 64 word)" "sint n \<le> 9223372036"
  shows "sint (n * Second) = sint n * 1000000000"
proof -
  have s: "sint Second = 1000000000" by (simp add: Second_def)
  have "- (2 ^ 63) \<le> sint n * 1000000000 \<and> sint n * 1000000000 < (2 ^ 63 :: int)"
    using assms by simp
  then have "signed_take_bit 63 (sint n * 1000000000) = sint n * 1000000000"
    by (simp add: signed_take_bit_int_eq_self)
  then show ?thesis using s by (simp add: sint_word_ariths)
qed

lemma Store_Create_seconds:
  assumes "vr sid \<noteq> Invalid" "sessions (store w) sid = None"
    and "- 9223372036 \<le> sint n" "sint n \<le> 9223372036"
  shows "\<exists>s w'. Store_Create vr sid n e w = Inr ((s, None), w') \<and>
           sint (maxage_s s) =
             (if 0 < sint n then sint n * 1000000000 else sint (period (store w)) sdiv 2)"
  using assms seconds_in_range[OF assms(3,4)]
  by (auto simp: Store_Create_def serve_def command_create_def Let_def div64_half
      word_sle_eq)

subsection \<open>Ids that fail the validity check\<close>



subsection \<open>Operations on a session that is gone\<close>

lemma ops_on_absent:
  assumes "sto s \<noteq> None" "active s" "sessions (store w) (id_s s) = None"
  shows "Session_Set s k v e w = Inr (Some (''Session.Set'', ErrTimedOut), w)"
    and "Session_Get s k e w = Inr ((None, Some (''Session.Get'', ErrNoSession)), w)"
    and "Session_Del s k e w = Inr (Some (''Session.Del'', ErrNoSession), w)"
  using assms
  by (simp_all add: Session_Set_def Session_Get_def Session_Del_def Store_touch_def serve_def
      command_touch_def Session0_def)

lemma sweep_leaves_absent:
  assumes "table_inv st" "(k, t) \<in> set kts" "sessions st k = Some s" "timed_out t s"
    and "timeout_loop kts st = Inr st'"
  shows "sessions st' k = None"
proof -
  from timeout_loop_spec[OF assms(1), of kts] assms(5)
  have "map_option no_index (sessions st' k) =
        (if \<exists>t s. (k, t) \<in> set kts \<and> sessions st k = Some s \<and> timed_out t s then None
         else map_option no_index (sessions st k))" by auto
  moreover have "\<exists>t s. (k, t) \<in> set kts \<and> sessions st k = Some s \<and> timed_out t s"
    using assms by blast
  ultimately show ?thesis by simp
qed

text \<open>Claim C6, amended. None of \<^verbatim>\<open>Set\<close>, \<^verbatim>\<open>Get\<close>, \<^verbatim>\<open>Del\<close> succeeds on a session that
  is gone or unbound, and none changes the world. For a bound, active session value
  whose id is not in the table (as after \<^verbatim>\<open>Store.Destroy\<close> of that id, or after a sweep
  that found the session timed out) \<^verbatim>\<open>Set\<close> returns
  \<^verbatim>\<open>ErrTimedOut\<close> and \<^verbatim>\<open>Get\<close> and \<^verbatim>\<open>Del\<close> return \<^verbatim>\<open>ErrNoSession\<close>. For a session value
  without a store or not active, such as the zero value, \<^verbatim>\<open>Set\<close> returns \<^verbatim>\<open>ErrTimedOut\<close>
  and \<^verbatim>\<open>Get\<close> and \<^verbatim>\<open>Del\<close> return \<^verbatim>\<open>ErrPoorForm\<close>.\<close>

theorem session_ops_fail_when_gone:
  "(sto s \<noteq> None \<and> active s \<and> sessions (store w) (id_s s) = None \<longrightarrow>
      Session_Set s k v e w = Inr (Some (''Session.Set'', ErrTimedOut), w) \<and>
      Session_Get s k e w = Inr ((None, Some (''Session.Get'', ErrNoSession)), w) \<and>
      Session_Del s k e w = Inr (Some (''Session.Del'', ErrNoSession), w)) \<and>
   (sto s = None \<or> \<not> active s \<longrightarrow>
      Session_Set s k v e w = Inr (Some (''Session.Set'', ErrTimedOut), w) \<and>
      Session_Get s k e w = Inr ((None, Some (''Session.Get'', ErrPoorForm)), w) \<and>
      Session_Del s k e w = Inr (Some (''Session.Del'', ErrPoorForm), w)) \<and>
   (\<forall>vr e0 w0 r. sto s \<noteq> None \<and> active s \<and> vr (id_s s) \<noteq> Invalid \<and>
      Store_Destroy vr (id_s s) e0 w0 = Inr (r, w) \<longrightarrow>
      Session_Set s k v e w = Inr (Some (''Session.Set'', ErrTimedOut), w) \<and>
      Session_Get s k e w = Inr ((None, Some (''Session.Get'', ErrNoSession)), w) \<and>
      Session_Del s k e w = Inr (Some (''Session.Del'', ErrNoSession), w)) \<and>
   (\<forall>e0 w0 r se now. sto s \<noteq> None \<and> active s \<and> table_invariant (store w0) \<and>
      sessions (store w0) (id_s s) = Some se \<and> timed_out now se \<and>
      (id_s s, now) \<in> set (iter e0) \<and>
      serve \<lparr>cmd = timecheck, key = 0, maxage = 0\<rparr> e0 w0 = Inr (r, w) \<longrightarrow>
      Session_Set s k v e w = Inr (Some (''Session.Set'', ErrTimedOut), w) \<and>
      Session_Get s k e w = Inr ((None, Some (''Session.Get'', ErrNoSession)), w) \<and>
      Session_Del s k e w = Inr (Some (''Session.Del'', ErrNoSession), w))"
proof (intro conjI allI impI)
  assume a: "sto s \<noteq> None \<and> active s \<and> sessions (store w) (id_s s) = None"
  then show "Session_Set s k v e w = Inr (Some (''Session.Set'', ErrTimedOut), w)"
    "Session_Get s k e w = Inr ((None, Some (''Session.Get'', ErrNoSession)), w)"
    "Session_Del s k e w = Inr (Some (''Session.Del'', ErrNoSession), w)"
    using ops_on_absent[of s w] by blast+
next
  assume "sto s = None \<or> \<not> active s"
  then show "Session_Set s k v e w = Inr (Some (''Session.Set'', ErrTimedOut), w)"
    "Session_Get s k e w = Inr ((None, Some (''Session.Get'', ErrPoorForm)), w)"
    "Session_Del s k e w = Inr (Some (''Session.Del'', ErrPoorForm), w)"
    by (auto simp: Session_Set_def Session_Get_def Session_Del_def)
next
  fix vr e0 w0 r
  assume a: "sto s \<noteq> None \<and> active s \<and> vr (id_s s) \<noteq> Invalid \<and>
      Store_Destroy vr (id_s s) e0 w0 = Inr (r, w)"
  then have "sessions (store w) (id_s s) = None"
    using Destroy_leaves_absent[of vr "id_s s" e0 w0 r w] by blast
  with a show "Session_Set s k v e w = Inr (Some (''Session.Set'', ErrTimedOut), w)"
    "Session_Get s k e w = Inr ((None, Some (''Session.Get'', ErrNoSession)), w)"
    "Session_Del s k e w = Inr (Some (''Session.Del'', ErrNoSession), w)"
    using ops_on_absent[of s w] by blast+
next
  fix e0 w0 r se now
  assume a: "sto s \<noteq> None \<and> active s \<and> table_invariant (store w0) \<and>
      sessions (store w0) (id_s s) = Some se \<and> timed_out now se \<and>
      (id_s s, now) \<in> set (iter e0) \<and>
      serve \<lparr>cmd = timecheck, key = 0, maxage = 0\<rparr> e0 w0 = Inr (r, w)"
  then have i: "table_inv (store w0)" using table_invariant_inv by blast
  from a have "timeout_loop (iter e0) (store w0) = Inr (store w)"
    by (auto simp: serve_def command_timeout_def split: sum.splits)
  with a i have "sessions (store w) (id_s s) = None"
    using sweep_leaves_absent[of "store w0" "id_s s" now "iter e0" se "store w"] by blast
  with a show "Session_Set s k v e w = Inr (Some (''Session.Set'', ErrTimedOut), w)"
    "Session_Get s k e w = Inr ((None, Some (''Session.Get'', ErrNoSession)), w)"
    "Session_Del s k e w = Inr (Some (''Session.Del'', ErrNoSession), w)"
    using ops_on_absent[of s w] by blast+
qed

theorem session_ops_fail_when_gone_witness:
  "sto ex_session9 \<noteq> None \<and> active ex_session9 \<and>
   sessions (store ex_world) (id_s ex_session9) = None \<and>
   Session_Set ex_session9 ''x'' 7 ex_env ex_world = Inr (Some (''Session.Set'', ErrTimedOut), ex_world) \<and>
   Session_Get ex_session9 ''x'' ex_env ex_world =
     Inr ((None, Some (''Session.Get'', ErrNoSession)), ex_world) \<and>
   Session_Del ex_session9 ''x'' ex_env ex_world = Inr (Some (''Session.Del'', ErrNoSession), ex_world) \<and>
   sto Session0 = None \<and>
   Session_Set Session0 ''x'' 7 ex_env ex_world = Inr (Some (''Session.Set'', ErrTimedOut), ex_world) \<and>
   Session_Get Session0 ''x'' ex_env ex_world =
     Inr ((None, Some (''Session.Get'', ErrPoorForm)), ex_world) \<and>
   Session_Del Session0 ''x'' ex_env ex_world = Inr (Some (''Session.Del'', ErrPoorForm), ex_world) \<and>
   sto ex_session1 \<noteq> None \<and> active ex_session1 \<and> UUID_Variant (id_s ex_session1) \<noteq> Invalid \<and>
   (\<exists>w1. Store_Destroy UUID_Variant (id_s ex_session1) ex_env ex_world = Inr (None, w1) \<and>
      Session_Set ex_session1 ''x'' 7 ex_env w1 = Inr (Some (''Session.Set'', ErrTimedOut), w1) \<and>
      Session_Get ex_session1 ''x'' ex_env w1 = Inr ((None, Some (''Session.Get'', ErrNoSession)), w1) \<and>
      Session_Del ex_session1 ''x'' ex_env w1 = Inr (Some (''Session.Del'', ErrNoSession), w1)) \<and>
   table_invariant (store ex_world) \<and> sessions (store ex_world) (id_s ex_session1) = Some ex_session1 \<and>
   timed_out 6000000000 ex_session1 \<and> (id_s ex_session1, 6000000000) \<in> set (iter ex_sweep) \<and>
   (\<exists>w2. serve \<lparr>cmd = timecheck, key = 0, maxage = 0\<rparr> ex_sweep ex_world = Inr (Session0, w2) \<and>
      Session_Set ex_session1 ''x'' 7 ex_env w2 = Inr (Some (''Session.Set'', ErrTimedOut), w2) \<and>
      Session_Get ex_session1 ''x'' ex_env w2 = Inr ((None, Some (''Session.Get'', ErrNoSession)), w2) \<and>
      Session_Del ex_session1 ''x'' ex_env w2 = Inr (Some (''Session.Del'', ErrNoSession), w2))"
proof -
  have a: "sto ex_session9 \<noteq> None \<and> active ex_session9 \<and>
     sessions (store ex_world) (id_s ex_session9) = None"
    by (simp add: ex_session9_def ex_world_def ex_table_def)
  have b: "sto Session0 = None" by (simp add: Session0_def)
  have c: "sto ex_session1 \<noteq> None \<and> active ex_session1 \<and> UUID_Variant (id_s ex_session1) \<noteq> Invalid"
    by (simp add: ex_session1_def UUID_Variant_valid)
  have "\<exists>w1. Store_Destroy UUID_Variant (id_s ex_session1) ex_env ex_world = Inr (None, w1)"
    by (simp add: Store_Destroy_def ex_session1_def UUID_Variant_valid ex_world_def ex_table_def ex_eval)
  then obtain w1 where d: "Store_Destroy UUID_Variant (id_s ex_session1) ex_env ex_world = Inr (None, w1)"
    by blast
  note t1 = session_ops_fail_when_gone[of ex_session9 ex_world "''x''" 7 ex_env]
  note t2 = session_ops_fail_when_gone[of Session0 ex_world "''x''" 7 ex_env]
  note t3 = session_ops_fail_when_gone[of ex_session1 w1 "''x''" 7 ex_env]
  from t1 a have 1: "Session_Set ex_session9 ''x'' 7 ex_env ex_world = Inr (Some (''Session.Set'', ErrTimedOut), ex_world) \<and>
   Session_Get ex_session9 ''x'' ex_env ex_world =
     Inr ((None, Some (''Session.Get'', ErrNoSession)), ex_world) \<and>
   Session_Del ex_session9 ''x'' ex_env ex_world = Inr (Some (''Session.Del'', ErrNoSession), ex_world)"
    by blast
  from t2 b have 2: "Session_Set Session0 ''x'' 7 ex_env ex_world = Inr (Some (''Session.Set'', ErrTimedOut), ex_world) \<and>
   Session_Get Session0 ''x'' ex_env ex_world =
     Inr ((None, Some (''Session.Get'', ErrPoorForm)), ex_world) \<and>
   Session_Del Session0 ''x'' ex_env ex_world = Inr (Some (''Session.Del'', ErrPoorForm), ex_world)"
    by blast
  from t3 c d have 3: "Session_Set ex_session1 ''x'' 7 ex_env w1 = Inr (Some (''Session.Set'', ErrTimedOut), w1) \<and>
      Session_Get ex_session1 ''x'' ex_env w1 = Inr ((None, Some (''Session.Get'', ErrNoSession)), w1) \<and>
      Session_Del ex_session1 ''x'' ex_env w1 = Inr (Some (''Session.Del'', ErrNoSession), w1)"
    by blast
  have f: "sessions (store ex_world) (id_s ex_session1) = Some ex_session1 \<and>
     timed_out 6000000000 ex_session1 \<and> (id_s ex_session1, 6000000000) \<in> set (iter ex_sweep)"
    using ex_world_1 by (simp add: ex_session1_def ex_sweep_def timed_out_def ex_eval)
  have "serve \<lparr>cmd = timecheck, key = 0, maxage = 0\<rparr> ex_sweep ex_world =
          Inr (Session0, ex_world\<lparr>store := ex_swept\<rparr>)"
    using ex_sweep_run by (simp add: serve_def ex_world_def)
  then obtain w2 where
    g: "serve \<lparr>cmd = timecheck, key = 0, maxage = 0\<rparr> ex_sweep ex_world = Inr (Session0, w2)"
    by blast
  note t4 = session_ops_fail_when_gone[of ex_session1 w2 "''x''" 7 ex_env]
  from t4 c f g ex_world_inv
  have 4: "Session_Set ex_session1 ''x'' 7 ex_env w2 = Inr (Some (''Session.Set'', ErrTimedOut), w2) \<and>
      Session_Get ex_session1 ''x'' ex_env w2 = Inr ((None, Some (''Session.Get'', ErrNoSession)), w2) \<and>
      Session_Del ex_session1 ''x'' ex_env w2 = Inr (Some (''Session.Del'', ErrNoSession), w2)"
    by blast
  from a b c d 1 2 3 have first: "sto ex_session9 \<noteq> None \<and> active ex_session9 \<and>
   sessions (store ex_world) (id_s ex_session9) = None \<and>
   Session_Set ex_session9 ''x'' 7 ex_env ex_world = Inr (Some (''Session.Set'', ErrTimedOut), ex_world) \<and>
   Session_Get ex_session9 ''x'' ex_env ex_world =
     Inr ((None, Some (''Session.Get'', ErrNoSession)), ex_world) \<and>
   Session_Del ex_session9 ''x'' ex_env ex_world = Inr (Some (''Session.Del'', ErrNoSession), ex_world) \<and>
   sto Session0 = None \<and>
   Session_Set Session0 ''x'' 7 ex_env ex_world = Inr (Some (''Session.Set'', ErrTimedOut), ex_world) \<and>
   Session_Get Session0 ''x'' ex_env ex_world =
     Inr ((None, Some (''Session.Get'', ErrPoorForm)), ex_world) \<and>
   Session_Del Session0 ''x'' ex_env ex_world = Inr (Some (''Session.Del'', ErrPoorForm), ex_world) \<and>
   sto ex_session1 \<noteq> None \<and> active ex_session1 \<and> UUID_Variant (id_s ex_session1) \<noteq> Invalid \<and>
   (\<exists>w1. Store_Destroy UUID_Variant (id_s ex_session1) ex_env ex_world = Inr (None, w1) \<and>
      Session_Set ex_session1 ''x'' 7 ex_env w1 = Inr (Some (''Session.Set'', ErrTimedOut), w1) \<and>
      Session_Get ex_session1 ''x'' ex_env w1 = Inr ((None, Some (''Session.Get'', ErrNoSession)), w1) \<and>
      Session_Del ex_session1 ''x'' ex_env w1 = Inr (Some (''Session.Del'', ErrNoSession), w1))"
    by blast
  from first f g 4 ex_world_inv show ?thesis by blast
qed

text \<open>The claim as it was stated puts the zero value with the expired sessions. On the
  zero session \<^verbatim>\<open>Get\<close> and \<^verbatim>\<open>Del\<close> return \<^verbatim>\<open>ErrPoorForm\<close>, the sentinel of a poorly
  formed uuid, which is neither \<^verbatim>\<open>ErrTimedOut\<close> nor \<^verbatim>\<open>ErrNoSession\<close>.\<close>

theorem unbound_session_counterexample:
  "Session0 = \<lparr>id_s = 0, data = None, created = 0, modified = 0, index_s = 0,
               sto = None, maxage_s = 0, active = False\<rparr> \<and>
   Session_Get Session0 ''x'' ex_env ex_world =
     Inr ((None, Some (''Session.Get'', ErrPoorForm)), ex_world) \<and>
   Session_Del Session0 ''x'' ex_env ex_world = Inr (Some (''Session.Del'', ErrPoorForm), ex_world) \<and>
   ErrPoorForm \<noteq> ErrTimedOut \<and> ErrPoorForm \<noteq> ErrNoSession"
  by (simp add: Session0_def Session_Get_def Session_Del_def)

subsection \<open>The value store of a returned copy\<close>

text \<open>Claim C10, amended. A session is returned by value, but its value store is a map,
  held by reference. An assignment or a \<^verbatim>\<open>delete\<close> in the value store of a copy leaves
  the store of sessions as it is (its map, \<open>array\<close>, \<open>index\<close> and every field of every
  entry), and it changes the contents read through every session that points to the
  same map, the entry of the table among them. \<^verbatim>\<open>Set\<close> and \<^verbatim>\<open>Del\<close> on a live session
  have exactly two effects: the \<^verbatim>\<open>touch\<close> command refreshes the last-modified time of
  the entry, and the caller then writes into the map that the entry points to.\<close>

theorem value_store_is_shared:
  "(\<forall>w'. map_assign (data s) k v w = Inr w' \<longrightarrow>
      store w' = store w \<and>
      (\<forall>t. map_read (data t) w' =
            (if data t = data s then (map_read (data t) w)(k \<mapsto> v) else map_read (data t) w))) \<and>
   store (map_delete (data s) k w) = store w \<and>
   (\<forall>t. map_read (data t) (map_delete (data s) k w) =
         (if data t = data s then (map_read (data t) w)(k := None) else map_read (data t) w)) \<and>
   (\<forall>t a. sto s \<noteq> None \<and> active s \<and> sessions (store w) (id_s s) = Some t \<and> active t \<and>
          data t = Some a \<longrightarrow>
      Session_Set s k v e w =
        Inr (None, w\<lparr>store := (store w)\<lparr>sessions :=
                          (sessions (store w))(id_s s \<mapsto> t\<lparr>modified := now1 e\<rparr>)\<rparr>,
                      cells := (cells w)(a := (cells w a)(k \<mapsto> v))\<rparr>) \<and>
      Session_Del s k e w =
        Inr (None, w\<lparr>store := (store w)\<lparr>sessions :=
                          (sessions (store w))(id_s s \<mapsto> t\<lparr>modified := now1 e\<rparr>)\<rparr>,
                      cells := (cells w)(a := (cells w a)(k := None))\<rparr>))"
proof (intro conjI allI impI)
  fix w' assume a: "map_assign (data s) k v w = Inr w'"
  then show "store w' = store w"
    by (auto simp: map_assign_def split: option.splits)
  fix t
  from a show "map_read (data t) w' =
            (if data t = data s then (map_read (data t) w)(k \<mapsto> v) else map_read (data t) w)"
    by (auto simp: map_assign_def map_read_def split: option.splits)
next
  show "store (map_delete (data s) k w) = store w"
    by (simp add: map_delete_def split: option.splits)
next
  fix t
  show "map_read (data t) (map_delete (data s) k w) =
         (if data t = data s then (map_read (data t) w)(k := None) else map_read (data t) w)"
    by (auto simp: map_delete_def map_read_def split: option.splits)
next
  fix t a
  assume a: "sto s \<noteq> None \<and> active s \<and> sessions (store w) (id_s s) = Some t \<and> active t \<and>
          data t = Some a"
  then show "Session_Set s k v e w =
        Inr (None, w\<lparr>store := (store w)\<lparr>sessions :=
                          (sessions (store w))(id_s s \<mapsto> t\<lparr>modified := now1 e\<rparr>)\<rparr>,
                      cells := (cells w)(a := (cells w a)(k \<mapsto> v))\<rparr>)"
    by (simp add: Session_Set_def Store_touch_def serve_def command_touch_def map_assign_def)
  from a show "Session_Del s k e w =
        Inr (None, w\<lparr>store := (store w)\<lparr>sessions :=
                          (sessions (store w))(id_s s \<mapsto> t\<lparr>modified := now1 e\<rparr>)\<rparr>,
                      cells := (cells w)(a := (cells w a)(k := None))\<rparr>)"
    by (simp add: Session_Del_def Store_touch_def serve_def command_touch_def map_delete_def)
qed

lemma ex_world1_created: "Store_Create UUID_Variant 1 0 ex_env Init = Inr ((ex_created, None), ex_world1)"
  by (simp add: Store_Create_def UUID_Variant_valid ex_env_def ex_created_def ex_world1_def ex_eval
      fun_eq_iff)

text \<open>The claim as it was stated has a write to the value store of a returned copy
  leave the entry of the table untouched. After \<^verbatim>\<open>Create\<close> of id 1 the value store of
  the entry has no \<open>''x''\<close>; the assignment in the returned copy, with no command sent
  to the server, makes the value store of the entry hold 7 there, and \<^verbatim>\<open>Set\<close> on the
  returned copy gives the same world.\<close>

theorem returned_copy_counterexample:
  "Store_Create UUID_Variant 1 0 ex_env Init = Inr ((ex_created, None), ex_world1) \<and>
   sessions (store ex_world1) 1 = Some ex_created \<and>
   map_read (data ex_created) ex_world1 ''x'' = None \<and>
   map_assign (data ex_created) ''x'' 7 ex_world1 = Inr ex_world2 \<and>
   Session_Set ex_created ''x'' 7 ex_env ex_world1 = Inr (None, ex_world2) \<and>
   store ex_world2 = store ex_world1 \<and>
   sessions (store ex_world2) 1 = Some ex_created \<and>
   map_read (data ex_created) ex_world2 ''x'' = Some 7"
proof -
  have "sessions (store ex_world1) 1 = Some ex_created" by (simp add: ex_world1_def)
  moreover have "map_read (data ex_created) ex_world1 ''x'' = None"
    by (simp add: map_read_def ex_created_def ex_world1_def)
  moreover have "map_assign (data ex_created) ''x'' 7 ex_world1 = Inr ex_world2"
    by (simp add: map_assign_def ex_created_def ex_world1_def ex_world2_def)
  moreover have "Session_Set ex_created ''x'' 7 ex_env ex_world1 = Inr (None, ex_world2)"
    by (simp add: Session_Set_def Store_touch_def serve_def command_touch_def map_assign_def
        ex_created_def ex_world1_def ex_world2_def ex_env_def fun_eq_iff)
  moreover have "store ex_world2 = store ex_world1" by (simp add: ex_world2_def)
  moreover have "sessions (store ex_world2) 1 = Some ex_created"
    by (simp add: ex_world2_def ex_world1_def)
  moreover have "map_read (data ex_created) ex_world2 ''x'' = Some 7"
    by (simp add: map_read_def ex_created_def ex_world2_def)
  ultimately show ?thesis using ex_world1_created by blast
qed

theorem value_store_is_shared_witness:
  "map_assign (data ex_created) ''x'' 7 ex_world1 = Inr ex_world2 \<and>
   store ex_world2 = store ex_world1 \<and>
   map_read (data ex_created) ex_world2 = (map_read (data ex_created) ex_world1)(''x'' \<mapsto> 7) \<and>
   map_read (data ex_session9) ex_world2 = map_read (data ex_session9) ex_world1 \<and>
   sto ex_created \<noteq> None \<and> active ex_created \<and>
   sessions (store ex_world1) (id_s ex_created) = Some ex_created \<and> data ex_created = Some 0 \<and>
   Session_Set ex_created ''x'' 7 ex_env ex_world1 =
     Inr (None, ex_world1\<lparr>store := (store ex_world1)\<lparr>sessions :=
                   (sessions (store ex_world1))(id_s ex_created \<mapsto> ex_created\<lparr>modified := now1 ex_env\<rparr>)\<rparr>,
                 cells := (cells ex_world1)(0 := (cells ex_world1 0)(''x'' \<mapsto> 7))\<rparr>) \<and>
   Session_Del ex_created ''x'' ex_env ex_world1 =
     Inr (None, ex_world1\<lparr>store := (store ex_world1)\<lparr>sessions :=
                   (sessions (store ex_world1))(id_s ex_created \<mapsto> ex_created\<lparr>modified := now1 ex_env\<rparr>)\<rparr>,
                 cells := (cells ex_world1)(0 := (cells ex_world1 0)(''x'' := None))\<rparr>)"
proof -
  have m: "map_assign (data ex_created) ''x'' 7 ex_world1 = Inr ex_world2"
    by (simp add: map_assign_def ex_created_def ex_world1_def ex_world2_def)
  have h: "sto ex_created \<noteq> None \<and> active ex_created \<and>
   sessions (store ex_world1) (id_s ex_created) = Some ex_created \<and> active ex_created \<and>
   data ex_created = Some 0"
    by (simp add: ex_created_def ex_world1_def)
  have n: "data ex_session9 \<noteq> data ex_created" by (simp add: ex_session9_def ex_created_def)
  note t = value_store_is_shared[of ex_created "''x''" 7 ex_world1 ex_env]
  from t m have 1: "store ex_world2 = store ex_world1"
    and 2: "\<And>t. map_read (data t) ex_world2 =
            (if data t = data ex_created then (map_read (data t) ex_world1)(''x'' \<mapsto> 7)
             else map_read (data t) ex_world1)" by blast+
  from 2[of ex_created] have 3:
    "map_read (data ex_created) ex_world2 = (map_read (data ex_created) ex_world1)(''x'' \<mapsto> 7)"
    by simp
  from 2[of ex_session9] n have 4:
    "map_read (data ex_session9) ex_world2 = map_read (data ex_session9) ex_world1" by simp
  from t h have 5: "Session_Set ex_created ''x'' 7 ex_env ex_world1 =
     Inr (None, ex_world1\<lparr>store := (store ex_world1)\<lparr>sessions :=
                   (sessions (store ex_world1))(id_s ex_created \<mapsto> ex_created\<lparr>modified := now1 ex_env\<rparr>)\<rparr>,
                 cells := (cells ex_world1)(0 := (cells ex_world1 0)(''x'' \<mapsto> 7))\<rparr>) \<and>
   Session_Del ex_created ''x'' ex_env ex_world1 =
     Inr (None, ex_world1\<lparr>store := (store ex_world1)\<lparr>sessions :=
                   (sessions (store ex_world1))(id_s ex_created \<mapsto> ex_created\<lparr>modified := now1 ex_env\<rparr>)\<rparr>,
                 cells := (cells ex_world1)(0 := (cells ex_world1 0)(''x'' := None))\<rparr>)"
    by blast
  from m 1 3 4 5 h show ?thesis by blast
qed

end
